theory Spec2Isabelle
  imports Main "HOL-Library.Sublist" "HOL-Library.Char_ord"
begin

section \<open>Python strings\<close>

text \<open>
  Python \<open>str\<close> values are modelled as \<^typ>\<open>string\<close>, a list of characters that stand
  for the code points below 256. White space, digits and lower-casing are those of Python
  on these code points. \<open>s.startswith(p)\<close> is \<^term>\<open>prefix p s\<close> and \<open>p in s\<close> is
  \<^term>\<open>sublist p s\<close> (a contiguous sublist), both from the library.
\<close>

definition is_upper :: "char \<Rightarrow> bool" where
  "is_upper c = (CHR ''A'' \<le> c \<and> c \<le> CHR ''Z'')"

definition is_lower :: "char \<Rightarrow> bool" where
  "is_lower c = (CHR ''a'' \<le> c \<and> c \<le> CHR ''z'')"

definition is_digit :: "char \<Rightarrow> bool" where
  "is_digit c = (CHR ''0'' \<le> c \<and> c \<le> CHR ''9'')"

definition is_space :: "char \<Rightarrow> bool" where
  "is_space c = (c \<in> set [CHR '' '', CHR 0x09, CHR 0x0A, CHR 0x0B, CHR 0x0C, CHR 0x0D,
                            CHR 0x1C, CHR 0x1D, CHR 0x1E, CHR 0x1F, CHR 0x85, CHR 0xA0])"

text \<open>The characters \<open>str.lower\<close> changes: \<open>A\<close> to \<open>Z\<close>, and the code points C0 to DE but D7.\<close>

definition has_lower :: "char \<Rightarrow> bool" where
  "has_lower c = (is_upper c \<or> (CHR 0xC0 \<le> c \<and> c \<le> CHR 0xDE \<and> c \<noteq> CHR 0xD7))"

definition lower_char :: "char \<Rightarrow> char" where
  "lower_char c = (if has_lower c then char_of (of_char c + (32::nat)) else c)"

definition upper_char :: "char \<Rightarrow> char" where
  "upper_char c = (if is_lower c then char_of (of_char c - (32::nat)) else c)"

definition lower :: "string \<Rightarrow> string" where
  "lower s = map lower_char s"

text \<open>\<open>s.strip()\<close>: leading and trailing whitespace removed.\<close>

definition strip :: "string \<Rightarrow> string" where
  "strip s = rev (dropWhile is_space (rev (dropWhile is_space s)))"

text \<open>\<open>s.split()\<close>: the maximal runs of non-whitespace characters, in order.\<close>

fun split_ws :: "string \<Rightarrow> string \<Rightarrow> string list" where
  "split_ws cur [] = (if cur = [] then [] else [cur])"
| "split_ws cur (c # cs) =
     (if is_space c then (if cur = [] then split_ws [] cs else cur # split_ws [] cs)
      else split_ws (cur @ [c]) cs)"

definition split :: "string \<Rightarrow> string list" where
  "split s = split_ws [] s"

text \<open>\<open>s.replace(a, b)\<close> for a one-character \<open>a\<close>.\<close>

definition replace_char :: "char \<Rightarrow> char \<Rightarrow> string \<Rightarrow> string" where
  "replace_char a b s = map (\<lambda>c. if c = a then b else c) s"

text \<open>
  \<open>s.title()\<close>: a letter that follows a non-letter is upper-cased, every other letter is
  lower-cased. The letters are taken to be the ASCII ones: the source applies \<open>title\<close> to
  a piece of the path of a URL.
\<close>

fun title_from :: "bool \<Rightarrow> string \<Rightarrow> string" where
  "title_from prev [] = []"
| "title_from prev (c # cs) =
     (if is_upper c \<or> is_lower c
      then (if prev then lower_char c else upper_char c) # title_from True cs
      else c # title_from False cs)"

definition str_title :: "string \<Rightarrow> string" where
  "str_title s = title_from False s"

text \<open>\<open>str(n)\<close> for a natural number, and \<open>s.zfill(w)\<close> for a string of digits.\<close>

definition digit_char :: "nat \<Rightarrow> char" where
  "digit_char d = char_of (of_char (CHR ''0'') + d)"

fun str_nat :: "nat \<Rightarrow> string" where
  "str_nat n = (if n < 10 then [digit_char n] else str_nat (n div 10) @ [digit_char (n mod 10)])"

declare str_nat.simps [simp del]

definition zfill :: "nat \<Rightarrow> string \<Rightarrow> string" where
  "zfill w s = replicate (w - length s) (CHR ''0'') @ s"

text \<open>\<open>s.split(sep)[0]\<close> for a non-empty \<open>sep\<close>: the text before its first occurrence.\<close>

fun first_piece :: "string \<Rightarrow> string \<Rightarrow> string" where
  "first_piece sep [] = []"
| "first_piece sep (c # cs) = (if prefix sep (c # cs) then [] else c # first_piece sep cs)"

text \<open>Truthiness of an \<open>Optional[str]\<close>: \<open>None\<close> and the empty string are false.\<close>

definition truthy :: "string option \<Rightarrow> bool" where
  "truthy v = (case v of None \<Rightarrow> False | Some s \<Rightarrow> s \<noteq> [])"

section \<open>Regular expressions\<close>

text \<open>
  The patterns of the source are written as values of \<open>rx\<close> and run by a backtracking
  matcher that lists the ways a pattern can match a prefix of the input, in the order in
  which Python's \<open>re\<close> tries them (greedy repetition prefers the longer match, lazy
  repetition the shorter one, alternatives go left to right). The first element of the
  list is the match \<open>re\<close> reports. A state is the rest of the input and the groups
  captured so far.
\<close>

datatype rx =
    Sym "char \<Rightarrow> bool"
  | Eps
  | Eos
  | Cat rx rx
  | Alt rx rx
  | Star rx
  | LazyStar rx
  | Grp nat rx

type_synonym mstate = "string \<times> (nat \<times> string) list"

function ms :: "rx \<Rightarrow> mstate \<Rightarrow> mstate list" where
  "ms (Sym p) (s, g) = (case s of [] \<Rightarrow> [] | c # cs \<Rightarrow> if p c then [(cs, g)] else [])"
| "ms Eps (s, g) = [(s, g)]"
| "ms Eos (s, g) = (if s = [] \<or> s = [CHR 0x0A] then [(s, g)] else [])"
| "ms (Cat a b) (s, g) = concat (map (ms b) (ms a (s, g)))"
| "ms (Alt a b) (s, g) = ms a (s, g) @ ms b (s, g)"
| "ms (Star a) (s, g) =
     concat (map (ms (Star a)) (filter (\<lambda>st. length (fst st) < length s) (ms a (s, g))))
     @ [(s, g)]"
| "ms (LazyStar a) (s, g) =
     (s, g) #
     concat (map (ms (LazyStar a)) (filter (\<lambda>st. length (fst st) < length s) (ms a (s, g))))"
| "ms (Grp n a) (s, g) =
     map (\<lambda>st. (fst st, (n, take (length s - length (fst st)) s) # snd st)) (ms a (s, g))"
  by pat_completeness auto
termination
  by (relation "inv_image (less_than <*lex*> less_than) (\<lambda>(r, st). (size r, length (fst st)))")
    auto

text \<open>\<open>re.match(p, s)\<close>: the groups of the first match at the start of \<open>s\<close>.\<close>

definition re_match :: "rx \<Rightarrow> string \<Rightarrow> (nat \<times> string) list option" where
  "re_match p s = (case ms p (s, []) of [] \<Rightarrow> None | st # _ \<Rightarrow> Some (snd st))"

text \<open>\<open>re.search(p, s)\<close>: the first match at the leftmost position that has one.\<close>

fun re_search :: "rx \<Rightarrow> string \<Rightarrow> (nat \<times> string) list option" where
  "re_search p [] = re_match p []"
| "re_search p (c # cs) =
     (case re_match p (c # cs) of Some g \<Rightarrow> Some g | None \<Rightarrow> re_search p cs)"

text \<open>\<open>m.group(n)\<close> for a group that took part in the match.\<close>

definition group :: "(nat \<times> string) list \<Rightarrow> nat \<Rightarrow> string" where
  "group g n = (case map_of g n of Some s \<Rightarrow> s | None \<Rightarrow> [])"

text \<open>Pattern building blocks.\<close>

definition lit_char :: "char \<Rightarrow> rx" where
  "lit_char c = Sym (\<lambda>x. x = c)"

definition lit :: "string \<Rightarrow> rx" where
  "lit s = foldr (\<lambda>c r. Cat (lit_char c) r) s Eps"

text \<open>A literal under \<open>re.IGNORECASE\<close>.\<close>

definition lit_ci :: "string \<Rightarrow> rx" where
  "lit_ci s = foldr (\<lambda>c r. Cat (Sym (\<lambda>x. lower_char x = lower_char c)) r) s Eps"

definition any_char :: rx where
  "any_char = Sym (\<lambda>x. x \<noteq> CHR 0x0A)"

definition digit :: rx where
  "digit = Sym is_digit"

definition not_slash :: rx where
  "not_slash = Sym (\<lambda>x. x \<noteq> CHR ''/'')"

definition Plus :: "rx \<Rightarrow> rx" where
  "Plus r = Cat r (Star r)"

definition LazyPlus :: "rx \<Rightarrow> rx" where
  "LazyPlus r = Cat r (LazyStar r)"

definition Opt :: "rx \<Rightarrow> rx" where
  "Opt r = Alt r Eps"

definition seq :: "rx list \<Rightarrow> rx" where
  "seq rs = foldr Cat rs Eps"

subsection \<open>The patterns of the source\<close>

text \<open>\<^verbatim>\<open>.*/movie/\d+/?$\<close>\<close>

definition rx_numeric_movie :: rx where
  "rx_numeric_movie =
     seq [Star any_char, lit ''/movie/'', Plus digit, Opt (lit_char (CHR ''/'')), Eos]"

text \<open>\<^verbatim>\<open>\d+x\d+\<close>\<close>

definition rx_dimensions :: rx where
  "rx_dimensions = seq [Plus digit, lit_char (CHR ''x''), Plus digit]"

text \<open>\<^verbatim>\<open>(1080p|720p|480p|360p)\<close> under \<open>re.IGNORECASE\<close>\<close>

definition rx_resolution :: rx where
  "rx_resolution =
     Grp 1 (Alt (lit_ci ''1080p'') (Alt (lit_ci ''720p'') (Alt (lit_ci ''480p'') (lit_ci ''360p''))))"

text \<open>\<^verbatim>\<open>File Size[:\s]*(\d+\.?\d*\s*[GMKT]B)\<close> under \<open>re.IGNORECASE\<close>\<close>

definition rx_file_size :: rx where
  "rx_file_size =
     seq [lit_ci ''File Size'',
          Star (Sym (\<lambda>x. x = CHR '':'' \<or> is_space x)),
          Grp 1 (seq [Plus digit, Opt (lit_char (CHR ''.'')), Star digit, Star (Sym is_space),
                      Sym (\<lambda>x. lower_char x \<in> set ''gmkt''), lit_ci ''B''])]"

text \<open>\<^verbatim>\<open>/([^/]+?)-season-(\d+)(?:-\d{4})?(?:-[^/]+)?-tamil-movie/?$\<close>\<close>

definition rx_series_tamil :: rx where
  "rx_series_tamil =
     seq [lit_char (CHR ''/''), Grp 1 (LazyPlus not_slash), lit ''-season-'', Grp 2 (Plus digit),
          Opt (seq [lit_char (CHR ''-''), digit, digit, digit, digit]),
          Opt (seq [lit_char (CHR ''-''), Plus not_slash]),
          lit ''-tamil-movie'', Opt (lit_char (CHR ''/'')), Eos]"

text \<open>\<^verbatim>\<open>/([^/]+)-season-(\d+)\<close>\<close>

definition rx_series_simple :: rx where
  "rx_series_simple =
     seq [lit_char (CHR ''/''), Grp 1 (Plus not_slash), lit ''-season-'', Grp 2 (Plus digit)]"

text \<open>\<^verbatim>\<open>/([^/]+)-\d{4}-tamil\<close>\<close>

definition rx_title :: rx where
  "rx_title =
     seq [lit_char (CHR ''/''), Grp 1 (Plus not_slash), lit_char (CHR ''-''),
          digit, digit, digit, digit, lit ''-tamil'']"

section \<open>Parsed documents\<close>

text \<open>
  What \<open>BeautifulSoup(response.text, "lxml")\<close> returns is modelled as a tree: an element has
  a tag name, its attributes (as parsed, one value per name) and its children; the root of
  the tree stands for the \<open>BeautifulSoup\<close> object itself. The queries of the source are
  functions on the tree, all in document order.
\<close>

datatype node =
    Element string "(string \<times> string) list" "node list"
  | Text string

fun descendants :: "node \<Rightarrow> node list" where
  "descendants (Text s) = []"
| "descendants (Element t as cs) = concat (map (\<lambda>c. c # descendants c) cs)"

fun is_tag :: "string \<Rightarrow> node \<Rightarrow> bool" where
  "is_tag tg (Element t as cs) = (t = tg)"
| "is_tag tg (Text s) = False"

fun attr :: "node \<Rightarrow> string \<Rightarrow> string option" where
  "attr (Element t as cs) k = map_of as k"
| "attr (Text s) k = None"

text \<open>\<open>el.get(k, "")\<close>\<close>

definition get_attr :: "node \<Rightarrow> string \<Rightarrow> string" where
  "get_attr n k = (case attr n k of None \<Rightarrow> [] | Some v \<Rightarrow> v)"

definition has_class :: "string \<Rightarrow> node \<Rightarrow> bool" where
  "has_class c n = (c \<in> set (split (get_attr n ''class'')))"

text \<open>\<open>el.get_text(strip=True)\<close>: the stripped, non-empty text pieces, concatenated.\<close>

fun text_pieces :: "node \<Rightarrow> string list" where
  "text_pieces (Text s) = [s]"
| "text_pieces (Element t as cs) = concat (map text_pieces cs)"

definition get_text :: "node \<Rightarrow> string" where
  "get_text n = concat (filter (\<lambda>s. s \<noteq> []) (map strip (text_pieces n)))"

text \<open>\<open>el.find_all(tg)\<close>, \<open>el.find_all("a", href=True)\<close>, \<open>el.find(tg)\<close> and
  \<open>el.find("a", href=True)\<close>\<close>

definition find_all :: "string \<Rightarrow> node \<Rightarrow> node list" where
  "find_all tg n = filter (is_tag tg) (descendants n)"

definition find_all_a_href :: "node \<Rightarrow> node list" where
  "find_all_a_href n = filter (\<lambda>d. is_tag ''a'' d \<and> attr d ''href'' \<noteq> None) (descendants n)"

definition find_tag :: "string \<Rightarrow> node \<Rightarrow> node option" where
  "find_tag tg n = (case find_all tg n of [] \<Rightarrow> None | d # _ \<Rightarrow> Some d)"

definition find_a_href :: "node \<Rightarrow> node option" where
  "find_a_href n = (case find_all_a_href n of [] \<Rightarrow> None | d # _ \<Rightarrow> Some d)"

text \<open>\<open>soup.select("div.f")\<close>, \<open>soup.select("div.dlink")\<close>: the elements with a tag and a class.\<close>

definition select_class :: "string \<Rightarrow> string \<Rightarrow> node \<Rightarrow> node list" where
  "select_class tg c n = filter (\<lambda>d. is_tag tg d \<and> has_class c d) (descendants n)"

text \<open>
  \<open>soup.select("div.dlink a")\<close>, \<open>soup.select("li a.coral")\<close>: the elements that satisfy
  \<open>tgt\<close> and lie below an element that satisfies \<open>anc\<close>, each once.
\<close>

fun select_below :: "(node \<Rightarrow> bool) \<Rightarrow> (node \<Rightarrow> bool) \<Rightarrow> bool \<Rightarrow> node \<Rightarrow> node list" where
  "select_below anc tgt inside (Text s) = []"
| "select_below anc tgt inside (Element t as cs) =
     concat (map (\<lambda>c. (if (inside \<or> anc (Element t as cs)) \<and> tgt c then [c] else [])
                       @ select_below anc tgt (inside \<or> anc (Element t as cs)) c) cs)"

definition select_dlink_a :: "node \<Rightarrow> node list" where
  "select_dlink_a n =
     select_below (\<lambda>d. is_tag ''div'' d \<and> has_class ''dlink'' d) (is_tag ''a'') False n"

definition select_li_a_coral :: "node \<Rightarrow> node list" where
  "select_li_a_coral n =
     select_below (is_tag ''li'') (\<lambda>d. is_tag ''a'' d \<and> has_class ''coral'' d) False n"

section \<open>The environment\<close>

text \<open>
  The scraper talks to the network and to \<open>urllib.parse\<close>; both are parameters of the model.
  \<^item> \<open>fetch\<close> is the outcome of \<open>session.get\<close> followed by parsing: given the requests made
    so far and a URL, a document or \<open>None\<close> (a \<open>RequestException\<close>). The answer may depend on
    the history, so the same URL can give different pages at different times.
  \<^item> \<open>urljoin\<close> is \<open>urllib.parse.urljoin\<close>; it raises \<open>ValueError\<close> on some malformed
    references (for instance \<open>//[\<close>), which is the value \<open>None\<close> here.
  \<^item> \<open>origin u\<close> is the string \<open>f"{parsed.scheme}://{parsed.netloc}"\<close> for
    \<open>parsed = urlparse(u)\<close>; the source computes it only for a URL it has just fetched.
  \<^item> \<open>self_base_url\<close> is the configured \<open>self.base_url\<close>.
  The state the functions thread is the list of URLs requested so far. The delay before a
  request and the progress messages are not part of the model.
\<close>

record env =
  fetch :: "string list \<Rightarrow> string \<Rightarrow> node option"
  urljoin :: "string \<Rightarrow> string \<Rightarrow> string option"
  origin :: "string \<Rightarrow> string"
  self_base_url :: string

datatype error = ValueError | IndexError

type_synonym log = "string list"

definition get_soup :: "env \<Rightarrow> string \<Rightarrow> log \<Rightarrow> node option \<times> log" where
  "get_soup E url lg = (fetch E lg url, lg @ [url])"

section \<open>The redirect chain walker\<close>

text \<open>The dictionary \<open>{"server_name", "level1_url", "mp4_url"}\<close> of a server.\<close>

record server_link =
  s_server_name :: string
  s_level1_url :: string
  s_mp4_url :: "string option"

definition cdn_domains :: "string list" where
  "cdn_domains = [''biggshare'', ''hotshare'', ''dubshare'', ''dubmv'', ''uptodub'', ''uptomkv'']"

definition cdn_domains_redirect :: "string list" where
  "cdn_domains_redirect = [''biggshare'', ''hotshare'', ''dubshare'', ''uptodub'', ''uptomkv'']"

text \<open>\<open>is_mp4 or is_cdn\<close>\<close>

definition is_final :: "string list \<Rightarrow> string \<Rightarrow> bool" where
  "is_final cdns href =
     (sublist ''.mp4'' (lower href) \<or> list_ex (\<lambda>cdn. sublist cdn (lower href)) cdns)"

definition follow_final_redirect :: "env \<Rightarrow> string \<Rightarrow> log \<Rightarrow> string option \<times> log" where
  "follow_final_redirect E url lg =
     (case get_soup E url lg of
        (None, lg1) \<Rightarrow> (None, lg1)
      | (Some soup, lg1) \<Rightarrow>
          (List.find (is_final cdn_domains_redirect)
             (map (\<lambda>link. get_attr link ''href'') (find_all_a_href soup)), lg1))"

text \<open>
  The first loop of \<open>_get_final_mp4_url\<close>, over the \<open>div.dlink\<close> elements still to visit.
  \<open>Some u\<close> is \<open>return u\<close>; \<open>None\<close> is the end of the loop without a \<open>return\<close>.
\<close>

fun final_mp4_loop :: "env \<Rightarrow> node list \<Rightarrow> log \<Rightarrow> string option \<times> log" where
  "final_mp4_loop E [] lg = (None, lg)"
| "final_mp4_loop E (d # ds) lg =
     (case find_a_href d of
        None \<Rightarrow> final_mp4_loop E ds lg
      | Some link \<Rightarrow>
          (let href = get_attr link ''href'' in
           if is_final cdn_domains href then (Some href, lg)
           else if prefix ''http'' href \<and> sublist ''download'' (lower href) then
             (case follow_final_redirect E href lg of
                (final_url, lg1) \<Rightarrow>
                  if truthy final_url then (final_url, lg1) else final_mp4_loop E ds lg1)
           else final_mp4_loop E ds lg))"

definition get_final_mp4_url :: "env \<Rightarrow> string \<Rightarrow> log \<Rightarrow> string option \<times> log" where
  "get_final_mp4_url E level1_url lg =
     (case get_soup E level1_url lg of
        (None, lg1) \<Rightarrow> (None, lg1)
      | (Some soup, lg1) \<Rightarrow>
          (case final_mp4_loop E (select_class ''div'' ''dlink'' soup) lg1 of
             (Some u, lg2) \<Rightarrow> (Some u, lg2)
           | (None, lg2) \<Rightarrow>
               (List.find (is_final cdn_domains)
                  (map (\<lambda>link. get_attr link ''href'') (find_all_a_href soup)), lg2)))"

section \<open>Server links of a download page\<close>

text \<open>
  The two loops of \<open>_get_server_links\<close>. Each returns the list built so far, whether it
  ended by \<open>break\<close> or by running out of elements.
\<close>

fun server_loop :: "env \<Rightarrow> node list \<Rightarrow> server_link list \<Rightarrow> log \<Rightarrow> server_link list \<times> log" where
  "server_loop E [] servers lg = (servers, lg)"
| "server_loop E (d # ds) servers lg =
     (case find_a_href d of
        None \<Rightarrow> server_loop E ds servers lg
      | Some link \<Rightarrow>
          (let href = get_attr link ''href''; text = get_text link in
           if prefix ''http'' href then
             (case get_final_mp4_url E href lg of
                (final_mp4_url, lg1) \<Rightarrow>
                  (let servers1 = servers @
                         [\<lparr>s_server_name = text, s_level1_url = href, s_mp4_url = final_mp4_url\<rparr>]
                   in if truthy final_mp4_url then (servers1, lg1)
                      else server_loop E ds servers1 lg1))
           else server_loop E ds servers lg))"

fun fallback_loop :: "env \<Rightarrow> node list \<Rightarrow> server_link list \<Rightarrow> log \<Rightarrow> server_link list \<times> log" where
  "fallback_loop E [] servers lg = (servers, lg)"
| "fallback_loop E (link # links) servers lg =
     (let href = get_attr link ''href''; text = get_text link in
      if (sublist ''download'' (lower text) \<or> sublist ''server'' (lower text))
         \<and> prefix ''http'' href \<and> \<not> sublist ''moviesda15.com'' href
         \<and> \<not> sublist ''isaidub.love'' href
      then
        (case get_final_mp4_url E href lg of
           (final_mp4_url, lg1) \<Rightarrow>
             (let servers1 = servers @
                    [\<lparr>s_server_name = text, s_level1_url = href, s_mp4_url = final_mp4_url\<rparr>]
              in if truthy final_mp4_url then (servers1, lg1)
                 else fallback_loop E links servers1 lg1))
      else fallback_loop E links servers lg)"

definition get_server_links :: "env \<Rightarrow> string \<Rightarrow> log \<Rightarrow> server_link list \<times> log" where
  "get_server_links E intermediate_url lg =
     (case get_soup E intermediate_url lg of
        (None, lg1) \<Rightarrow> ([], lg1)
      | (Some soup, lg1) \<Rightarrow>
          (case server_loop E (select_class ''div'' ''dlink'' soup) [] lg1 of
             (servers, lg2) \<Rightarrow>
               if servers = [] then fallback_loop E (find_all_a_href soup) [] lg2
               else (servers, lg2)))"

section \<open>Absolute URLs\<close>

text \<open>
  The idiom the source repeats for every reference it keeps:
  \<^verbatim>\<open>if href.startswith("http"): full_url = href  else: full_url = urljoin(base_url, href)\<close>
\<close>

definition resolve :: "env \<Rightarrow> string \<Rightarrow> string \<Rightarrow> error + string" where
  "resolve E base_url href =
     (if prefix ''http'' href then Inr href
      else (case urljoin E base_url href of None \<Rightarrow> Inl ValueError | Some u \<Rightarrow> Inr u))"

section \<open>Images of a movie page\<close>

record images =
  poster_url :: "string option"
  screenshots :: "string list"

definition no_images :: images where
  "no_images = \<lparr>poster_url = None, screenshots = []\<rparr>"

fun img_loop :: "env \<Rightarrow> string \<Rightarrow> node list \<Rightarrow> images \<Rightarrow> error + images" where
  "img_loop E base_url [] images = Inr images"
| "img_loop E base_url (img # imgs) images =
     (let src = get_attr img ''src''; alt = get_attr img ''alt'' in
      if src = [] then img_loop E base_url imgs images
      else
        (case resolve E base_url src of
           Inl e \<Rightarrow> Inl e
         | Inr abs_src \<Rightarrow>
             if sublist ''/uploads/posters/'' abs_src \<or> sublist ''poster'' (lower alt)
             then img_loop E base_url imgs (images\<lparr>poster_url := Some abs_src\<rparr>)
             else if sublist ''/uploads/screen_shots/'' abs_src \<or> sublist ''screenshot'' (lower alt)
             then img_loop E base_url imgs (images\<lparr>screenshots := screenshots images @ [abs_src]\<rparr>)
             else img_loop E base_url imgs images))"

text \<open>The body of the loop over \<open>picture\<close> elements: first its \<open>source\<close>, then its \<open>img\<close>.\<close>

definition picture_source :: "env \<Rightarrow> string \<Rightarrow> node \<Rightarrow> images \<Rightarrow> error + images" where
  "picture_source E base_url picture images =
     (case find_tag ''source'' picture of
        None \<Rightarrow> Inr images
      | Some source \<Rightarrow>
          (let srcset = get_attr source ''srcset'' in
           if srcset \<noteq> [] \<and> sublist ''/uploads/posters/'' srcset then
             (case split srcset of
                [] \<Rightarrow> Inl IndexError
              | src_url # _ \<Rightarrow>
                  (case resolve E base_url src_url of
                     Inl e \<Rightarrow> Inl e
                   | Inr u \<Rightarrow> Inr (images\<lparr>poster_url := Some u\<rparr>)))
           else Inr images))"

definition picture_img :: "env \<Rightarrow> string \<Rightarrow> node \<Rightarrow> images \<Rightarrow> error + images" where
  "picture_img E base_url picture images =
     (case find_tag ''img'' picture of
        None \<Rightarrow> Inr images
      | Some img \<Rightarrow>
          if \<not> truthy (poster_url images) then
            (let src = get_attr img ''src'' in
             if src \<noteq> [] \<and> sublist ''/uploads/posters/'' src then
               (case resolve E base_url src of
                  Inl e \<Rightarrow> Inl e
                | Inr u \<Rightarrow> Inr (images\<lparr>poster_url := Some u\<rparr>))
             else Inr images)
          else Inr images)"

fun picture_loop :: "env \<Rightarrow> string \<Rightarrow> node list \<Rightarrow> images \<Rightarrow> error + images" where
  "picture_loop E base_url [] images = Inr images"
| "picture_loop E base_url (picture # pictures) images =
     (case picture_source E base_url picture images of
        Inl e \<Rightarrow> Inl e
      | Inr images1 \<Rightarrow>
          (case picture_img E base_url picture images1 of
             Inl e \<Rightarrow> Inl e
           | Inr images2 \<Rightarrow> picture_loop E base_url pictures images2))"

definition get_movie_images :: "env \<Rightarrow> node \<Rightarrow> string \<Rightarrow> error + images" where
  "get_movie_images E soup movie_url =
     (let base_url = (if movie_url \<noteq> [] then origin E movie_url else self_base_url E) in
      case img_loop E base_url (find_all ''img'' soup) no_images of
        Inl e \<Rightarrow> Inl e
      | Inr images \<Rightarrow> picture_loop E base_url (find_all ''picture'' soup) images)"

section \<open>Quality options\<close>

text \<open>
  The dictionary of a quality option: \<open>"quality"\<close> and \<open>"url"\<close>, and the optional keys
  \<open>"is_direct_download"\<close> (absent reads as false) and \<open>"file_size"\<close>.
\<close>

record quality_option =
  q_quality :: string
  q_url :: string
  q_is_direct_download :: bool
  q_file_size :: "string option"

text \<open>\<^verbatim>\<open>any(q in href for q in ["-1080p-", "-720p-", "-480p-", "-360p-"])\<close>\<close>

definition has_quality_token :: "string \<Rightarrow> bool" where
  "has_quality_token href =
     list_ex (\<lambda>q. sublist q href) [''-1080p-'', ''-720p-'', ''-480p-'', ''-360p-'']"

subsection \<open>The "Original" page\<close>

fun original_loop ::
  "env \<Rightarrow> string \<Rightarrow> node list \<Rightarrow> quality_option list \<Rightarrow> error + quality_option list" where
  "original_loop E base_url [] qualities = Inr qualities"
| "original_loop E base_url (d # ds) qualities =
     (case find_a_href d of
        None \<Rightarrow> original_loop E base_url ds qualities
      | Some link \<Rightarrow>
          (let href = get_attr link ''href''; text = get_text link in
           if has_quality_token href then
             (case resolve E base_url href of
                Inl e \<Rightarrow> Inl e
              | Inr full_url \<Rightarrow>
                  original_loop E base_url ds (qualities @
                    [\<lparr>q_quality = text, q_url = full_url, q_is_direct_download = False,
                      q_file_size = None\<rparr>]))
           else if re_match rx_numeric_movie href \<noteq> None \<and> re_search rx_resolution text \<noteq> None then
             (case resolve E base_url href of
                Inl e \<Rightarrow> Inl e
              | Inr full_url \<Rightarrow>
                  original_loop E base_url ds (qualities @
                    [\<lparr>q_quality = text, q_url = full_url, q_is_direct_download = False,
                      q_file_size = None\<rparr>]))
           else original_loop E base_url ds qualities))"

definition get_quality_from_original_page ::
  "env \<Rightarrow> string \<Rightarrow> string \<Rightarrow> log \<Rightarrow> (error + quality_option list) \<times> log" where
  "get_quality_from_original_page E original_url base_url lg =
     (case get_soup E original_url lg of
        (None, lg1) \<Rightarrow> (Inr [], lg1)
      | (Some soup, lg1) \<Rightarrow>
          (let base = (if base_url = [] then origin E original_url else base_url) in
           (original_loop E base (select_class ''div'' ''f'' soup) [], lg1)))"

subsection \<open>The season page\<close>

text \<open>
  \<open>current_episode\<close> is the dictionary appended last, shared with the list; it is kept as
  its index in \<open>episodes\<close>, and writing its \<open>"file_size"\<close> updates the list at that index.
\<close>

definition season_item ::
  "env \<Rightarrow> string \<Rightarrow> node \<Rightarrow> quality_option list \<Rightarrow> nat option
     \<Rightarrow> error + (quality_option list \<times> nat option)" where
  "season_item E base_url li episodes current_episode =
     (case find_a_href li of
        None \<Rightarrow> Inr (episodes, current_episode)
      | Some link \<Rightarrow>
          (let href = get_attr link ''href''; text = get_text link in
           if sublist ''/download/'' href then
             (case resolve E base_url href of
                Inl e \<Rightarrow> Inl e
              | Inr download_url \<Rightarrow>
                  (let episode_name = (if text \<noteq> [] then text else ''Episode'') in
                   Inr (episodes @
                          [\<lparr>q_quality = episode_name, q_url = download_url,
                            q_is_direct_download = True, q_file_size = None\<rparr>],
                        Some (length episodes))))
           else Inr (episodes, current_episode)))"

fun season_loop ::
  "env \<Rightarrow> string \<Rightarrow> node list \<Rightarrow> quality_option list \<Rightarrow> nat option
     \<Rightarrow> error + quality_option list" where
  "season_loop E base_url [] episodes current_episode = Inr episodes"
| "season_loop E base_url (li # lis) episodes current_episode =
     (case season_item E base_url li episodes current_episode of
        Inl e \<Rightarrow> Inl e
      | Inr (episodes1, current1) \<Rightarrow>
          (case (re_search rx_file_size (get_text li), current1) of
             (Some size_match, Some i) \<Rightarrow>
               season_loop E base_url lis
                 (episodes1[i := (episodes1 ! i)\<lparr>q_file_size := Some (group size_match 1)\<rparr>])
                 current1
           | _ \<Rightarrow> season_loop E base_url lis episodes1 current1))"

definition get_episodes_from_season_page ::
  "env \<Rightarrow> string \<Rightarrow> string \<Rightarrow> log \<Rightarrow> (error + quality_option list) \<times> log" where
  "get_episodes_from_season_page E season_url base_url lg =
     (case get_soup E season_url lg of
        (None, lg1) \<Rightarrow> (Inr [], lg1)
      | (Some soup, lg1) \<Rightarrow>
          (let base = (if base_url = [] then origin E season_url else base_url) in
           (case season_loop E base (find_all ''li'' soup) [] None of
              Inl e \<Rightarrow> (Inl e, lg1)
            | Inr episodes \<Rightarrow> (Inr (rev episodes), lg1))))"

subsection \<open>Sequential episode probing\<close>

definition parse_series_url :: "string \<Rightarrow> (string \<times> string) option" where
  "parse_series_url movie_url =
     (case re_search rx_series_tamil movie_url of
        Some m \<Rightarrow> Some (group m 1, group m 2)
      | None \<Rightarrow>
          (case re_search rx_series_simple movie_url of
             Some m \<Rightarrow> Some (group m 1, group m 2)
           | None \<Rightarrow> None))"

text \<open>\<^verbatim>\<open>f"{base_url}/download/{series_slug}-season-{season_num}-epi-{epi_str}/"\<close>\<close>

definition episode_url :: "string \<Rightarrow> string \<Rightarrow> string \<Rightarrow> nat \<Rightarrow> string" where
  "episode_url base_url series_slug season_num epi_num =
     base_url @ ''/download/'' @ series_slug @ ''-season-'' @ season_num @ ''-epi-''
       @ zfill 2 (str_nat epi_num) @ ''/''"

definition episode_title :: "node \<Rightarrow> nat \<Rightarrow> string" where
  "episode_title soup epi_num =
     (case find_tag ''title'' soup of
        None \<Rightarrow> ''Episode '' @ str_nat epi_num
      | Some title_tag \<Rightarrow> first_piece '' - '' (get_text title_tag))"

text \<open>The loop over \<open>range(1, 21)\<close>; both \<open>break\<close>s end it with the episodes found so far.\<close>

fun scan_loop ::
  "env \<Rightarrow> string \<Rightarrow> string \<Rightarrow> string \<Rightarrow> nat list \<Rightarrow> quality_option list \<Rightarrow> log
     \<Rightarrow> quality_option list \<times> log" where
  "scan_loop E base_url series_slug season_num [] episodes lg = (episodes, lg)"
| "scan_loop E base_url series_slug season_num (epi_num # rest) episodes lg =
     (case get_soup E (episode_url base_url series_slug season_num epi_num) lg of
        (None, lg1) \<Rightarrow> (episodes, lg1)
      | (Some soup, lg1) \<Rightarrow>
          if select_dlink_a soup \<noteq> [] then
            scan_loop E base_url series_slug season_num rest
              (episodes @
                 [\<lparr>q_quality = episode_title soup epi_num,
                   q_url = episode_url base_url series_slug season_num epi_num,
                   q_is_direct_download = True, q_file_size = None\<rparr>])
              lg1
          else (episodes, lg1))"

definition scan_moviesda_episodes ::
  "env \<Rightarrow> string \<Rightarrow> string \<Rightarrow> log \<Rightarrow> quality_option list \<times> log" where
  "scan_moviesda_episodes E movie_url base_url lg =
     (case parse_series_url movie_url of
        None \<Rightarrow> ([], lg)
      | Some (series_slug, season_num) \<Rightarrow>
          scan_loop E base_url series_slug season_num [1..<21] [] lg)"

subsection \<open>The movie page\<close>

text \<open>
  How a loop body ends: by raising, by \<open>return\<close>, or by going on to the next element with
  the values it carries.
\<close>

datatype ('r, 'a) flow = Raised error | Returned 'r | Fell 'a

text \<open>What an anchor to an "Original" page makes \<open>get_quality_options\<close> return.\<close>

definition follow_original ::
  "env \<Rightarrow> string \<Rightarrow> string \<Rightarrow> log \<Rightarrow> (error + quality_option list) \<times> log" where
  "follow_original E base_url href lg =
     (case resolve E base_url href of
        Inl e \<Rightarrow> (Inl e, lg)
      | Inr full_url \<Rightarrow> get_quality_from_original_page E full_url base_url lg)"

text \<open>The season check of an anchor: it returns only when the season page gave episodes.\<close>

definition follow_season ::
  "env \<Rightarrow> string \<Rightarrow> string \<Rightarrow> log \<Rightarrow> (quality_option list, unit) flow \<times> log" where
  "follow_season E base_url href lg =
     (if sublist ''-season-'' href \<and> sublist ''-dubbed-movie'' href then
        (case resolve E base_url href of
           Inl e \<Rightarrow> (Raised e, lg)
         | Inr season_url \<Rightarrow>
             (case get_episodes_from_season_page E season_url base_url lg of
                (Inl e, lg1) \<Rightarrow> (Raised e, lg1)
              | (Inr season_qualities, lg1) \<Rightarrow>
                  if season_qualities \<noteq> [] then (Returned season_qualities, lg1)
                  else (Fell (), lg1)))
      else (Fell (), lg))"

text \<open>The direct quality checks of an anchor (\<open>if\<close> / \<open>elif\<close>).\<close>

definition direct_quality ::
  "env \<Rightarrow> string \<Rightarrow> string \<Rightarrow> string \<Rightarrow> quality_option list \<Rightarrow> error + quality_option list" where
  "direct_quality E base_url href text qualities =
     (if has_quality_token href then
        (case resolve E base_url href of
           Inl e \<Rightarrow> Inl e
         | Inr full_url \<Rightarrow>
             Inr (qualities @
               [\<lparr>q_quality = text, q_url = full_url, q_is_direct_download = False,
                 q_file_size = None\<rparr>]))
      else if re_match rx_numeric_movie href \<noteq> None \<and> re_search rx_dimensions text \<noteq> None then
        (case resolve E base_url href of
           Inl e \<Rightarrow> Inl e
         | Inr full_url \<Rightarrow>
             Inr (qualities @
               [\<lparr>q_quality = text, q_url = full_url, q_is_direct_download = True,
                 q_file_size = None\<rparr>]))
      else Inr qualities)"

fun quality_loop ::
  "env \<Rightarrow> string \<Rightarrow> node list \<Rightarrow> quality_option list \<Rightarrow> log
     \<Rightarrow> (quality_option list, quality_option list) flow \<times> log" where
  "quality_loop E base_url [] qualities lg = (Fell qualities, lg)"
| "quality_loop E base_url (d # ds) qualities lg =
     (case find_a_href d of
        None \<Rightarrow> quality_loop E base_url ds qualities lg
      | Some link \<Rightarrow>
          (let href = get_attr link ''href''; text = get_text link in
           if sublist ''-original-movie'' href \<or> sublist ''-movie-original'' href then
             (case follow_original E base_url href lg of
                (Inl e, lg1) \<Rightarrow> (Raised e, lg1)
              | (Inr r, lg1) \<Rightarrow> (Returned r, lg1))
           else if re_match rx_numeric_movie href \<noteq> None \<and> sublist ''original'' (lower text) then
             (case follow_original E base_url href lg of
                (Inl e, lg1) \<Rightarrow> (Raised e, lg1)
              | (Inr r, lg1) \<Rightarrow> (Returned r, lg1))
           else
             (case follow_season E base_url href lg of
                (Raised e, lg1) \<Rightarrow> (Raised e, lg1)
              | (Returned r, lg1) \<Rightarrow> (Returned r, lg1)
              | (Fell u, lg1) \<Rightarrow>
                  (case direct_quality E base_url href text qualities of
                     Inl e \<Rightarrow> (Raised e, lg1)
                   | Inr qualities1 \<Rightarrow> quality_loop E base_url ds qualities1 lg1))))"

text \<open>
  \<open>get_quality_options\<close>. When the page cannot be fetched the source returns \<open>[], {}\<close>; its
  only reader takes \<open>poster_url\<close> and \<open>screenshots\<close> from the dictionary with the defaults
  \<open>None\<close> and \<open>[]\<close>, which is \<^term>\<open>no_images\<close>.
\<close>

definition get_quality_options ::
  "env \<Rightarrow> string \<Rightarrow> log \<Rightarrow> (error + quality_option list \<times> images) \<times> log" where
  "get_quality_options E movie_url lg =
     (case get_soup E movie_url lg of
        (None, lg1) \<Rightarrow> (Inr ([], no_images), lg1)
      | (Some soup, lg1) \<Rightarrow>
          (case get_movie_images E soup movie_url of
             Inl e \<Rightarrow> (Inl e, lg1)
           | Inr images \<Rightarrow>
               (let base_url = origin E movie_url in
                case quality_loop E base_url (select_class ''div'' ''f'' soup) [] lg1 of
                  (Raised e, lg2) \<Rightarrow> (Inl e, lg2)
                | (Returned r, lg2) \<Rightarrow> (Inr (r, images), lg2)
                | (Fell qualities, lg2) \<Rightarrow>
                    if qualities = [] \<and> sublist ''season'' (lower movie_url)
                       \<and> sublist ''moviesda'' base_url
                    then
                      (case scan_moviesda_episodes E movie_url base_url lg2 of
                         (episodes, lg3) \<Rightarrow>
                           (Inr (if episodes \<noteq> [] then episodes else qualities, images), lg3))
                    else (Inr (qualities, images), lg2))))"

section \<open>Download entries\<close>

text \<open>
  The dictionary of a download: \<open>"filename"\<close>, \<open>"intermediate_url"\<close>, \<open>"direct_links"\<close> and
  the optional \<open>"file_size"\<close>.
\<close>

record download =
  d_filename :: string
  d_intermediate_url :: string
  d_direct_links :: "server_link list"
  d_file_size :: "string option"

fun coral_loop :: "env \<Rightarrow> string \<Rightarrow> node list \<Rightarrow> download list \<Rightarrow> error + download list" where
  "coral_loop E base_url [] downloads = Inr downloads"
| "coral_loop E base_url (link # links) downloads =
     (let href = get_attr link ''href''; text = get_text link in
      if sublist ''/download/'' href then
        (case resolve E base_url href of
           Inl e \<Rightarrow> Inl e
         | Inr full_url \<Rightarrow>
             coral_loop E base_url links (downloads @
               [\<lparr>d_filename = text, d_intermediate_url = full_url, d_direct_links = [],
                 d_file_size = None\<rparr>]))
      else coral_loop E base_url links downloads)"

fun mp4_text_loop :: "env \<Rightarrow> string \<Rightarrow> node list \<Rightarrow> download list \<Rightarrow> error + download list" where
  "mp4_text_loop E base_url [] downloads = Inr downloads"
| "mp4_text_loop E base_url (link # links) downloads =
     (let href = get_attr link ''href''; text = get_text link in
      if sublist ''/download/'' href
         \<and> (sublist ''.mp4'' (lower text) \<or> sublist ''hd'' (lower text)) then
        (case resolve E base_url href of
           Inl e \<Rightarrow> Inl e
         | Inr full_url \<Rightarrow>
             mp4_text_loop E base_url links (downloads @
               [\<lparr>d_filename = text, d_intermediate_url = full_url, d_direct_links = [],
                 d_file_size = None\<rparr>]))
      else mp4_text_loop E base_url links downloads)"

text \<open>\<^verbatim>\<open>downloads[-1]["file_size"] = size_match.group(1)\<close> for every list item with a size.\<close>

fun size_loop :: "node list \<Rightarrow> download list \<Rightarrow> download list" where
  "size_loop [] downloads = downloads"
| "size_loop (li # lis) downloads =
     (case re_search rx_file_size (get_text li) of
        Some size_match \<Rightarrow>
          if downloads \<noteq> [] then
            size_loop lis
              (downloads[length downloads - 1 :=
                 (last downloads)\<lparr>d_file_size := Some (group size_match 1)\<rparr>])
          else size_loop lis downloads
      | None \<Rightarrow> size_loop lis downloads)"

fun servers_loop :: "env \<Rightarrow> download list \<Rightarrow> log \<Rightarrow> download list \<times> log" where
  "servers_loop E [] lg = ([], lg)"
| "servers_loop E (download # downloads) lg =
     (case get_server_links E (d_intermediate_url download) lg of
        (server_links, lg1) \<Rightarrow>
          (case servers_loop E downloads lg1 of
             (rest, lg2) \<Rightarrow> (download\<lparr>d_direct_links := server_links\<rparr> # rest, lg2)))"

definition get_download_links ::
  "env \<Rightarrow> string \<Rightarrow> log \<Rightarrow> (error + download list) \<times> log" where
  "get_download_links E quality_url lg =
     (case get_soup E quality_url lg of
        (None, lg1) \<Rightarrow> (Inr [], lg1)
      | (Some soup, lg1) \<Rightarrow>
          (let base_url = origin E quality_url in
           case coral_loop E base_url (select_li_a_coral soup) [] of
             Inl e \<Rightarrow> (Inl e, lg1)
           | Inr downloads \<Rightarrow>
               (case (if downloads = [] then mp4_text_loop E base_url (find_all_a_href soup) []
                      else Inr downloads) of
                  Inl e \<Rightarrow> (Inl e, lg1)
                | Inr downloads1 \<Rightarrow>
                    (case servers_loop E (size_loop (find_all ''li'' soup) downloads1) lg1 of
                       (downloads2, lg2) \<Rightarrow> (Inr downloads2, lg2)))))"

section \<open>The aggregator\<close>

record quality_info =
  qi_quality :: string
  qi_downloads :: "download list"

record result = images +
  r_movie_url :: string
  r_title :: "string option"
  r_qualities :: "quality_info list"

text \<open>
  The list-item loop of a direct-download page. \<open>current_download\<close> is, as in the season
  page, the index of the dictionary appended last.
\<close>

definition direct_item ::
  "env \<Rightarrow> string \<Rightarrow> node \<Rightarrow> download list \<Rightarrow> nat option \<Rightarrow> log
     \<Rightarrow> (error + download list \<times> nat option) \<times> log" where
  "direct_item E base_url li downloads current_download lg =
     (case find_a_href li of
        None \<Rightarrow> (Inr (downloads, current_download), lg)
      | Some link \<Rightarrow>
          (let href = get_attr link ''href''; text = get_text link in
           if sublist ''/download/'' href then
             (case resolve E base_url href of
                Inl e \<Rightarrow> (Inl e, lg)
              | Inr download_url \<Rightarrow>
                  (case get_server_links E download_url lg of
                     (server_links, lg1) \<Rightarrow>
                       (Inr (downloads @
                               [\<lparr>d_filename = text, d_intermediate_url = download_url,
                                 d_direct_links = server_links, d_file_size = Some []\<rparr>],
                             Some (length downloads)), lg1)))
           else (Inr (downloads, current_download), lg)))"

fun direct_loop ::
  "env \<Rightarrow> string \<Rightarrow> node list \<Rightarrow> download list \<Rightarrow> nat option \<Rightarrow> log
     \<Rightarrow> (error + download list) \<times> log" where
  "direct_loop E base_url [] downloads current_download lg = (Inr downloads, lg)"
| "direct_loop E base_url (li # lis) downloads current_download lg =
     (case direct_item E base_url li downloads current_download lg of
        (Inl e, lg1) \<Rightarrow> (Inl e, lg1)
      | (Inr (downloads1, current1), lg1) \<Rightarrow>
          (case (re_search rx_file_size (get_text li), current1) of
             (Some size_match, Some i) \<Rightarrow>
               direct_loop E base_url lis
                 (downloads1[i := (downloads1 ! i)\<lparr>d_file_size := Some (group size_match 1)\<rparr>])
                 current1 lg1
           | _ \<Rightarrow> direct_loop E base_url lis downloads1 current1 lg1))"

text \<open>The branch \<open>if quality.get("is_direct_download")\<close> of the loop of \<open>scrape_movie\<close>.\<close>

definition direct_downloads ::
  "env \<Rightarrow> quality_option \<Rightarrow> log \<Rightarrow> (error + download list) \<times> log" where
  "direct_downloads E q lg =
     (case get_soup E (q_url q) lg of
        (None, lg1) \<Rightarrow> (Inr [], lg1)
      | (Some quality_soup, lg1) \<Rightarrow>
          (let base_url = origin E (q_url q) in
           if select_dlink_a quality_soup \<noteq> [] then
             (case get_server_links E (q_url q) lg1 of
                (server_links, lg2) \<Rightarrow>
                  (Inr [\<lparr>d_filename = q_quality q, d_intermediate_url = q_url q,
                         d_direct_links = server_links, d_file_size = Some []\<rparr>], lg2))
           else direct_loop E base_url (find_all ''li'' quality_soup) [] None lg1))"

fun scrape_loop ::
  "env \<Rightarrow> quality_option list \<Rightarrow> quality_info list \<Rightarrow> log
     \<Rightarrow> (error + quality_info list) \<times> log" where
  "scrape_loop E [] infos lg = (Inr infos, lg)"
| "scrape_loop E (q # qs) infos lg =
     (case (if q_is_direct_download q then direct_downloads E q lg
            else get_download_links E (q_url q) lg) of
        (Inl e, lg1) \<Rightarrow> (Inl e, lg1)
      | (Inr downloads, lg1) \<Rightarrow>
          scrape_loop E qs (infos @ [\<lparr>qi_quality = q_quality q, qi_downloads = downloads\<rparr>]) lg1)"

definition movie_title :: "string \<Rightarrow> string option" where
  "movie_title movie_url =
     (case re_search rx_title movie_url of
        None \<Rightarrow> None
      | Some title_match \<Rightarrow>
          Some (str_title (replace_char (CHR ''-'') (CHR '' '') (group title_match 1))))"

definition scrape_movie :: "env \<Rightarrow> string \<Rightarrow> log \<Rightarrow> (error + result) \<times> log" where
  "scrape_movie E movie_url lg =
     (case get_quality_options E movie_url lg of
        (Inl e, lg1) \<Rightarrow> (Inl e, lg1)
      | (Inr (qualities, images), lg1) \<Rightarrow>
          (case scrape_loop E qualities [] lg1 of
             (Inl e, lg2) \<Rightarrow> (Inl e, lg2)
           | (Inr infos, lg2) \<Rightarrow>
               (Inr \<lparr>poster_url = poster_url images, screenshots = screenshots images,
                     r_movie_url = movie_url, r_title = movie_title movie_url,
                     r_qualities = infos\<rparr>, lg2)))"

section \<open>Derived notions used in the statements\<close>

text \<open>The references of the first \<open>href\<close>-bearing anchor of each element of a list.\<close>

definition dlink_hrefs :: "node list \<Rightarrow> string list" where
  "dlink_hrefs ds = map (\<lambda>link. get_attr link ''href'') (List.map_filter find_a_href ds)"

text \<open>
  The candidates \<open>_get_server_links\<close> can try on a page, as pairs of anchor text and
  reference, in the order it tries them: in the first loop the \<open>http\<close> references of the
  first anchors of the \<open>div.dlink\<close> elements; when there is none, in the fallback loop the
  external \<open>http\<close> references of the anchors whose text names a download or a server.
\<close>

definition dlink_candidates :: "node \<Rightarrow> (string \<times> string) list" where
  "dlink_candidates soup =
     filter (\<lambda>c. prefix ''http'' (snd c))
       (map (\<lambda>link. (get_text link, get_attr link ''href''))
          (List.map_filter find_a_href (select_class ''div'' ''dlink'' soup)))"

definition is_fallback_link :: "node \<Rightarrow> bool" where
  "is_fallback_link link =
     ((sublist ''download'' (lower (get_text link)) \<or> sublist ''server'' (lower (get_text link)))
      \<and> prefix ''http'' (get_attr link ''href'')
      \<and> \<not> sublist ''moviesda15.com'' (get_attr link ''href'')
      \<and> \<not> sublist ''isaidub.love'' (get_attr link ''href''))"

definition fallback_candidates :: "node \<Rightarrow> (string \<times> string) list" where
  "fallback_candidates soup =
     map (\<lambda>link. (get_text link, get_attr link ''href''))
       (filter is_fallback_link (find_all_a_href soup))"

definition link_candidates :: "node \<Rightarrow> (string \<times> string) list" where
  "link_candidates soup =
     (if dlink_candidates soup \<noteq> [] then dlink_candidates soup else fallback_candidates soup)"

text \<open>
  What the walker returns for each of a list of level-1 URLs when it is run on them one
  after the other from a history \<open>lg\<close>, and the history after these runs.
\<close>

fun walk_results :: "env \<Rightarrow> string list \<Rightarrow> log \<Rightarrow> string option list" where
  "walk_results E [] lg = []"
| "walk_results E (h # hs) lg =
     fst (get_final_mp4_url E h lg) # walk_results E hs (snd (get_final_mp4_url E h lg))"

fun walk_log :: "env \<Rightarrow> string list \<Rightarrow> log \<Rightarrow> log" where
  "walk_log E [] lg = lg"
| "walk_log E (h # hs) lg = walk_log E hs (snd (get_final_mp4_url E h lg))"

text \<open>
  The number of candidates tried when the results of the walker are \<open>rs\<close>: those that fail
  before the first that resolves, and that one.
\<close>

definition tried :: "string option list \<Rightarrow> nat" where
  "tried rs = Suc (length (takeWhile (\<lambda>r. r = None) rs))"

text \<open>The server link recorded for a candidate and the result of the walker for it.\<close>

definition link_of :: "(string \<times> string) \<times> string option \<Rightarrow> server_link" where
  "link_of cm = \<lparr>s_server_name = fst (fst cm), s_level1_url = snd (fst cm), s_mp4_url = snd cm\<rparr>"

section \<open>Example sites\<close>

text \<open>
  A small fixed web for the examples: \<open>fetch\<close> looks the URL up in a table of pages whatever
  the history, \<open>origin\<close> keeps a URL up to the end of its host, and \<open>urljoin\<close> joins a
  root-relative reference to the origin; as in Python, the reference \<open>//[\<close> makes it raise.
\<close>

fun before_nth_slash :: "nat \<Rightarrow> string \<Rightarrow> string" where
  "before_nth_slash n [] = []"
| "before_nth_slash n (c # cs) =
     (if c = CHR ''/'' then (case n of 0 \<Rightarrow> [] | Suc k \<Rightarrow> c # before_nth_slash k cs)
      else c # before_nth_slash n cs)"

definition static_env :: "(string \<times> node) list \<Rightarrow> env" where
  "static_env site =
     \<lparr>fetch = (\<lambda>lg u. map_of site u),
      urljoin = (\<lambda>b h. if prefix ''//['' h then None else Some (b @ h)),
      origin = before_nth_slash 2,
      self_base_url = ''https://moviesda15.com''\<rparr>"

definition document :: "node list \<Rightarrow> node" where
  "document cs = Element ''[document]'' [] cs"

definition anchor :: "string \<Rightarrow> string \<Rightarrow> node" where
  "anchor href text = Element ''a'' [(''href'', href)] [Text text]"

definition dlink :: "string \<Rightarrow> string \<Rightarrow> node" where
  "dlink href text = Element ''div'' [(''class'', ''dlink'')] [anchor href text]"

text \<open>A server page with three server links, none of which answers.\<close>

definition three_servers_site :: "(string \<times> node) list" where
  "three_servers_site =
     [(''http://s.example/page'',
       document [dlink ''http://s.example/download/1'' ''Server 1'',
                 dlink ''http://s.example/download/2'' ''Server 2'',
                 dlink ''http://s.example/download/3'' ''Server 3''])]"

text \<open>
  List items as the season page and the direct-download page read them: the reference and
  the text of the first \<open>href\<close>-bearing anchor of the item, and whether that reference
  is a download page.
\<close>

definition item_href :: "node \<Rightarrow> string" where
  "item_href li = (case find_a_href li of None \<Rightarrow> [] | Some link \<Rightarrow> get_attr link ''href'')"

definition item_text :: "node \<Rightarrow> string" where
  "item_text li = (case find_a_href li of None \<Rightarrow> [] | Some link \<Rightarrow> get_text link)"

definition is_download_item :: "node \<Rightarrow> bool" where
  "is_download_item li =
     (case find_a_href li of
        None \<Rightarrow> False
      | Some link \<Rightarrow> sublist ''/download/'' (get_attr link ''href''))"

definition download_items :: "node \<Rightarrow> node list" where
  "download_items soup = filter is_download_item (find_all ''li'' soup)"

definition item_label :: "node \<Rightarrow> string" where
  "item_label li = (if item_text li \<noteq> [] then item_text li else ''Episode'')"

text \<open>A reference that \<^const>\<open>resolve\<close> turns into a URL without raising.\<close>

definition resolvable :: "env \<Rightarrow> string \<Rightarrow> string \<Rightarrow> bool" where
  "resolvable E base_url href = (prefix ''http'' href \<or> urljoin E base_url href \<noteq> None)"

text \<open>A season page that lists its episodes latest first, each followed by its size.\<close>

definition list_item :: "node list \<Rightarrow> node" where
  "list_item cs = Element ''li'' [] cs"

definition season_page :: node where
  "season_page =
     document
       [Element ''ul'' []
          [list_item [anchor ''/download/page/103/'' ''Ep03''],
           list_item [Text ''File Size: 310 MB''],
           list_item [anchor ''/download/page/102/'' ''Ep02''],
           list_item [Text ''File Size: 295 MB''],
           list_item [anchor ''https://isaidub.love/download/page/101/'' ''Ep01''],
           list_item [Text ''File Size: 1.2 GB'']]]"

definition season_site :: "(string \<times> node) list" where
  "season_site = [(''https://isaidub.love/show-season-01-dubbed-movie/'', season_page)]"

text \<open>
  The probe of episode \<open>n\<close> when the episodes before it have been probed in order from a
  history \<open>lg\<close>: it succeeds when the page answers and has an anchor below a \<open>div.dlink\<close>.
\<close>

definition probe_ok :: "env \<Rightarrow> string \<Rightarrow> string \<Rightarrow> string \<Rightarrow> log \<Rightarrow> nat \<Rightarrow> bool" where
  "probe_ok E base_url series_slug season_num lg n =
     (case fetch E (lg @ map (episode_url base_url series_slug season_num) [1..<n])
             (episode_url base_url series_slug season_num n) of
        None \<Rightarrow> False
      | Some soup \<Rightarrow> select_dlink_a soup \<noteq> [])"

text \<open>A series with seven episode pages; the eighth does not exist.\<close>

definition episode_page :: node where
  "episode_page =
     document [Element ''title'' [] [Text ''Show Episode - Moviesda''],
               dlink ''http://s.example/download/1'' ''Server 1'']"

definition seven_episodes_site :: "(string \<times> node) list" where
  "seven_episodes_site =
     map (\<lambda>n. (episode_url ''https://moviesda15.com'' ''show'' ''01'' n, episode_page)) [1..<8]"

text \<open>
  The test of \<open>_get_final_mp4_url\<close> for a further redirect page:
  \<^verbatim>\<open>href.startswith("http") and "download" in href.lower()\<close>
\<close>

definition is_redirect :: "string \<Rightarrow> bool" where
  "is_redirect href = (prefix ''http'' href \<and> sublist ''download'' (lower href))"

text \<open>The references of all \<open>href\<close>-bearing anchors of a page.\<close>

definition all_hrefs :: "node \<Rightarrow> string list" where
  "all_hrefs soup = map (\<lambda>link. get_attr link ''href'') (find_all_a_href soup)"

text \<open>
  A reference the walker follows to a further page: one that is not terminal and passes the
  test for a redirect page.
\<close>

definition is_hop :: "string \<Rightarrow> bool" where
  "is_hop href = (\<not> is_final cdn_domains href \<and> is_redirect href)"

text \<open>
  What the \<open>i\<close>-th of the \<open>div.dlink\<close> references \<open>hs\<close> of a level-1 page gives when the scan
  reaches it from the history \<open>lg\<close>: itself when it is terminal; what the redirect page gives
  when it leads to one, the pages requested so far being those of the followed references
  before it; nothing otherwise.
\<close>

definition anchor_result :: "env \<Rightarrow> string list \<Rightarrow> log \<Rightarrow> nat \<Rightarrow> string option" where
  "anchor_result E hs lg i =
     (if is_final cdn_domains (hs ! i) then Some (hs ! i)
      else if is_redirect (hs ! i)
      then fst (follow_final_redirect E (hs ! i) (lg @ filter is_hop (take i hs)))
      else None)"

text \<open>
  Modelled from the spec: the terminal test in the words of the specification, which the
  source does not contain. A reference is terminal when it ends in a media-file extension
  or when its host name contains one of the CDN name fragments. The specification names
  no extensions; the list below has \<open>.mp4\<close>, the only one the source knows, and other common
  video extensions. The host name is the text after \<open>//\<close> up to the next \<open>/\<close>, \<open>?\<close>, \<open>#\<close> or
  \<open>:\<close>.
\<close>

fun after_marker :: "string \<Rightarrow> string \<Rightarrow> string" where
  "after_marker m [] = []"
| "after_marker m (c # cs) =
     (if prefix m (c # cs) then drop (length m) (c # cs) else after_marker m cs)"

definition hostname_of :: "string \<Rightarrow> string" where
  "hostname_of href = takeWhile (\<lambda>c. c \<notin> set ''/?#:'') (after_marker ''//'' href)"

definition media_extensions :: "string list" where
  "media_extensions = [''.mp4'', ''.mkv'', ''.avi'', ''.mov'', ''.webm'', ''.m4v'']"

definition spec_terminal :: "string \<Rightarrow> bool" where
  "spec_terminal href =
     (list_ex (\<lambda>e. suffix e (lower href)) media_extensions
      \<or> list_ex (\<lambda>cdn. sublist cdn (lower (hostname_of href))) cdn_domains)"

text \<open>A server page whose only link is a media file, and one whose only link is an HTML page
  with \<open>.mp4\<close> inside its name.\<close>

definition mp4_page :: node where
  "mp4_page = document [dlink ''https://files.example/store/movie_1080p.mp4'' ''Download'']"

definition mp4_site :: "(string \<times> node) list" where
  "mp4_site =
     [(''http://s.example/page'', mp4_page),
      (''http://s.example/other'',
       document [dlink ''http://files.example/movie.mp4.html'' ''Watch online''])]"

text \<open>
  A level-1 page whose first server does not answer, whose second server leads to a page
  with a \<open>dubmv\<close> link before a media link, and whose third link is a media link.
\<close>

definition level1_page :: node where
  "level1_page =
     document [dlink ''http://r.example/download/1'' ''Server 1'',
               dlink ''http://r.example/download/2'' ''Server 2'',
               dlink ''https://cdn.biggshare.xyz/late.mp4'' ''Direct'']"

definition redirect_site :: "(string \<times> node) list" where
  "redirect_site =
     [(''http://s.example/level1'', level1_page),
      (''http://r.example/download/2'',
       document [anchor ''https://dubmv.top/film'' ''Mirror'',
                 anchor ''https://cdn.hotshare.link/film.mp4'' ''Download''])]"


text \<open>
  The candidates of a \<open>picture\<close> element as the source tests them: its first \<open>source\<close> with
  the poster path segment in its \<open>srcset\<close>, and its first \<open>img\<close> with the segment in its
  \<open>src\<close>.
\<close>

definition source_candidate :: "node \<Rightarrow> bool" where
  "source_candidate picture =
     (case find_tag ''source'' picture of
        None \<Rightarrow> False
      | Some source \<Rightarrow> sublist ''/uploads/posters/'' (get_attr source ''srcset''))"

definition img_candidate :: "node \<Rightarrow> bool" where
  "img_candidate picture =
     (case find_tag ''img'' picture of
        None \<Rightarrow> False
      | Some img \<Rightarrow> sublist ''/uploads/posters/'' (get_attr img ''src''))"

text \<open>A movie page with a poster image followed by a \<open>picture\<close> element with its own poster
  source, and a \<open>picture\<close> that has only an image.\<close>

definition picture_with_source :: node where
  "picture_with_source =
     Element ''picture'' []
       [Element ''source''
          [(''srcset'', ''https://moviesda15.com/uploads/posters/small.webp 1x'')] []]"

definition picture_with_img :: node where
  "picture_with_img =
     Element ''picture'' []
       [Element ''img'' [(''src'', ''https://moviesda15.com/uploads/posters/other.jpg'')] []]"

definition poster_page :: node where
  "poster_page =
     document
       [Element ''div'' []
          [Element ''img''
             [(''src'', ''https://moviesda15.com/uploads/posters/film.jpg''), (''alt'', ''Film'')] []],
        picture_with_source]"

definition film_poster :: images where
  "film_poster =
     \<lparr>poster_url = Some ''https://moviesda15.com/uploads/posters/film.jpg'', screenshots = []\<rparr>"

text \<open>A list item that has an anchor (first or not) to a download page.\<close>

definition has_download_anchor :: "node \<Rightarrow> bool" where
  "has_download_anchor li =
     list_ex (\<lambda>a. sublist ''/download/'' (get_attr a ''href'')) (find_all_a_href li)"

text \<open>
  A direct-download page in list style: the first item has a download link, the second
  has a download link after another link.
\<close>

definition files_page :: node where
  "files_page =
     document
       [Element ''ul'' []
          [list_item [anchor ''/download/page/7/'' ''Film 720p.mp4''],
           list_item [anchor ''/about/'' ''About'', anchor ''/download/page/8/'' ''Film 480p.mp4'']]]"

definition files_site :: "(string \<times> node) list" where
  "files_site = [(''https://isaidub.love/movie/55/'', files_page)]"

definition files_option :: quality_option where
  "files_option =
     \<lparr>q_quality = ''Film (720x320)'', q_url = ''https://isaidub.love/movie/55/'',
      q_is_direct_download = True, q_file_size = None\<rparr>"

text \<open>A direct-download page with a server link, as the episode pages of a series.\<close>

definition episode_option :: quality_option where
  "episode_option =
     \<lparr>q_quality = ''Show Episode'',
      q_url = ''https://moviesda15.com/download/show-season-01-epi-01/'',
      q_is_direct_download = True, q_file_size = None\<rparr>"

text \<open>
  The two tests of \<open>get_quality_options\<close> for a link to an "Original" page, and its test
  for a link to a season page.
\<close>

definition is_original_link :: "string \<Rightarrow> string \<Rightarrow> bool" where
  "is_original_link href text =
     (sublist ''-original-movie'' href \<or> sublist ''-movie-original'' href
      \<or> (re_match rx_numeric_movie href \<noteq> None \<and> sublist ''original'' (lower text)))"

definition is_season_link :: "string \<Rightarrow> bool" where
  "is_season_link href = (sublist ''-season-'' href \<and> sublist ''-dubbed-movie'' href)"

text \<open>
  Two movie pages with a link to the same "Original" page. On the first it comes after a
  direct quality link and after a link to a season page that does not exist; on the second
  it comes after a link to the season page of the example above.
\<close>

definition f_div :: "string \<Rightarrow> string \<Rightarrow> node" where
  "f_div href text = Element ''div'' [(''class'', ''f'')] [anchor href text]"













text \<open>
  A movie whose quality page, download page and first server page link by root-relative
  references, down to a server page whose media link is itself root-relative.
\<close>

definition relative_media_site :: "(string \<times> node) list" where
  "relative_media_site =
     [(''https://moviesda15.com/film-2024-tamil-movie/'',
       document [f_div ''/film-720p-hd/'' ''Film 720p HD'']),
      (''https://moviesda15.com/film-720p-hd/'',
       document [list_item [Element ''a'' [(''href'', ''/download/film-720p/''), (''class'', ''coral'')]
                              [Text ''Film 720p.mp4'']]]),
      (''https://moviesda15.com/download/film-720p/'',
       document [dlink ''http://srv.example/get/1'' ''Server 1'']),
      (''http://srv.example/get/1'',
       document [dlink ''/files/film-720p.mp4'' ''Download''])]"

definition relative_media_result :: result where
  "relative_media_result =
     \<lparr>poster_url = None, screenshots = [],
      r_movie_url = ''https://moviesda15.com/film-2024-tamil-movie/'',
      r_title = Some ''Film'',
      r_qualities =
        [\<lparr>qi_quality = ''Film 720p HD'',
          qi_downloads =
            [\<lparr>d_filename = ''Film 720p.mp4'',
              d_intermediate_url = ''https://moviesda15.com/download/film-720p/'',
              d_direct_links =
                [\<lparr>s_server_name = ''Server 1'', s_level1_url = ''http://srv.example/get/1'',
                  s_mp4_url = Some ''/files/film-720p.mp4''\<rparr>],
              d_file_size = None\<rparr>]\<rparr>]\<rparr>"

text \<open>
  A download page with three servers, of which the second resolves: its server page has a
  media link, the first server does not answer, and the third is never tried.
\<close>

definition servers_page :: node where
  "servers_page =
     document [dlink ''http://one.example/get/1'' ''Server 1'',
               dlink ''http://two.example/get/2'' ''Server 2'',
               dlink ''http://three.example/get/3'' ''Server 3'']"

definition second_server_site :: "(string \<times> node) list" where
  "second_server_site =
     [(''https://moviesda15.com/download/film-720p/'', servers_page),
      (''http://two.example/get/2'',
       document [dlink ''https://cdn.hotshare.link/film-720p.mp4'' ''Download'']),
      (''http://three.example/get/3'',
       document [dlink ''https://cdn.biggshare.xyz/film-720p.mp4'' ''Download''])]"
section \<open>Counting the candidates tried\<close>

lemma tried_Nil: "tried [] = Suc 0"
  by (simp add: tried_def)

lemma tried_Some: "m \<noteq> None \<Longrightarrow> tried (m # rs) = Suc 0"
  by (simp add: tried_def)

lemma tried_None: "tried (None # rs) = Suc (tried rs)"
  by (simp add: tried_def)

section \<open>Properties of the redirect chain walker and of the server links\<close>

lemma is_final_nonempty: "is_final cdn_domains [] = False" "is_final cdn_domains_redirect [] = False"
  by (simp_all add: is_final_def cdn_domains_def cdn_domains_redirect_def lower_def)

lemma is_final_ne: "is_final cdn_domains h \<Longrightarrow> h \<noteq> []" "is_final cdn_domains_redirect h \<Longrightarrow> h \<noteq> []"
  using is_final_nonempty by auto

lemma find_final_ne: "List.find (is_final cdn_domains) hs = Some u \<Longrightarrow> u \<noteq> []"
   "List.find (is_final cdn_domains_redirect) hs = Some u \<Longrightarrow> u \<noteq> []"
  using is_final_ne by (auto simp: find_Some_iff)

lemma follow_ne: "fst (follow_final_redirect E url lg) = Some u \<Longrightarrow> u \<noteq> []"
  by (auto simp: follow_final_redirect_def get_soup_def split: option.splits dest: find_final_ne)

lemma loop_ne: "fst (final_mp4_loop E ds lg) = Some u \<Longrightarrow> u \<noteq> []"
proof (induction ds arbitrary: lg)
  case Nil then show ?case by simp
next
  case (Cons d ds)
  then show ?case
    by (auto simp: Let_def truthy_def split: option.splits if_splits prod.splits dest: is_final_ne)
qed

lemma final_ne: "fst (get_final_mp4_url E url lg) = Some u \<Longrightarrow> u \<noteq> []"
proof (cases "fetch E lg url")
  case None
  assume "fst (get_final_mp4_url E url lg) = Some u"
  with None show ?thesis by (simp add: get_final_mp4_url_def get_soup_def)
next
  case (Some soup)
  assume a: "fst (get_final_mp4_url E url lg) = Some u"
  obtain r lg2 where l: "final_mp4_loop E (select_class ''div'' ''dlink'' soup) (lg @ [url]) = (r, lg2)"
    by (cases "final_mp4_loop E (select_class ''div'' ''dlink'' soup) (lg @ [url])")
  show ?thesis
  proof (cases r)
    case None
    with a Some l show ?thesis
      by (auto simp: get_final_mp4_url_def get_soup_def dest: find_final_ne)
  next
    case (Some v)
    with a \<open>fetch E lg url = Some soup\<close> l have "v = u"
      by (simp add: get_final_mp4_url_def get_soup_def)
    with Some l loop_ne [of E "select_class ''div'' ''dlink'' soup" "lg @ [url]" u]
    show ?thesis by simp
  qed
qed

lemma truthy_final: "truthy (fst (get_final_mp4_url E url lg)) = (fst (get_final_mp4_url E url lg) \<noteq> None)"
  using final_ne [of E url lg] by (cases "fst (get_final_mp4_url E url lg)") (auto simp: truthy_def)


lemma truthy_not_None: "truthy r \<Longrightarrow> r \<noteq> None"
  by (cases r) (simp_all add: truthy_def)

lemma dlink_hrefs_Cons:
  "dlink_hrefs (d # ds) =
     (case find_a_href d of None \<Rightarrow> dlink_hrefs ds
      | Some link \<Rightarrow> get_attr link ''href'' # dlink_hrefs ds)"
  by (simp add: dlink_hrefs_def List.map_filter_simps split: option.splits)

lemma follow_log: "snd (follow_final_redirect E url lg) = lg @ [url]"
  by (simp add: follow_final_redirect_def get_soup_def split: option.splits)

lemma final_mp4_loop_log:
  "\<exists>fs. snd (final_mp4_loop E ds lg) = lg @ fs \<and> length fs \<le> length ds
        \<and> set fs \<subseteq> set (dlink_hrefs ds)"
proof (induction ds arbitrary: lg)
  case Nil
  show ?case by simp
next
  case (Cons d ds)
  show ?case
  proof (cases "find_a_href d")
    case None
    with Cons.IH [of lg] show ?thesis
      by (auto simp: dlink_hrefs_Cons)
  next
    case (Some link)
    let ?h = "get_attr link ''href''"
    show ?thesis
    proof (cases "is_final cdn_domains ?h")
      case True
      with Some show ?thesis by (simp add: dlink_hrefs_Cons)
    next
      case nf: False
      show ?thesis
      proof (cases "prefix ''http'' ?h \<and> sublist ''download'' (lower ?h)")
        case False
        with Some nf Cons.IH [of lg] show ?thesis
          by (auto simp: dlink_hrefs_Cons Let_def)
      next
        case True
        obtain r lg1 where f: "follow_final_redirect E ?h lg = (r, lg1)"
          by (cases "follow_final_redirect E ?h lg")
        with follow_log [of E ?h lg] have lg1: "lg1 = lg @ [?h]" by simp
        show ?thesis
        proof (cases "truthy r")
          case True
          with Some nf \<open>prefix ''http'' ?h \<and> sublist ''download'' (lower ?h)\<close> f lg1
          show ?thesis by (simp add: dlink_hrefs_Cons Let_def)
        next
          case False
          from Cons.IH [of lg1] obtain fs where
            fs: "snd (final_mp4_loop E ds lg1) = lg1 @ fs" "length fs \<le> length ds"
                "set fs \<subseteq> set (dlink_hrefs ds)" by blast
          with Some nf \<open>prefix ''http'' ?h \<and> sublist ''download'' (lower ?h)\<close> f lg1 False
          have "snd (final_mp4_loop E (d # ds) lg) = lg @ (?h # fs)"
            by (simp add: Let_def)
          moreover have "length (?h # fs) \<le> length (d # ds)" using fs by simp
          moreover have "set (?h # fs) \<subseteq> set (dlink_hrefs (d # ds))"
            using fs Some by (auto simp: dlink_hrefs_Cons)
          ultimately show ?thesis by blast
        qed
      qed
    qed
  qed
qed

text \<open>
  Claim C2, as amended. A call of \<open>_get_final_mp4_url\<close> requests the level-1 URL first.
  If that fails it requests nothing else. Otherwise every further request is for the
  reference of the first anchor of a \<open>div.dlink\<close> element of the level-1 page, and there
  is at most one such request per element: the number of requests is at most one plus the
  number of \<open>div.dlink\<close> elements of that page, and no link of a page reached from the
  level-1 page is followed.
\<close>

theorem walker_fetch_bound:
  "\<exists>fs. snd (get_final_mp4_url E level1_url lg) = lg @ level1_url # fs
        \<and> (case fetch E lg level1_url of
             None \<Rightarrow> fs = []
           | Some soup \<Rightarrow>
               length fs \<le> length (select_class ''div'' ''dlink'' soup)
               \<and> set fs \<subseteq> set (dlink_hrefs (select_class ''div'' ''dlink'' soup)))"
proof (cases "fetch E lg level1_url")
  case None
  then show ?thesis by (simp add: get_final_mp4_url_def get_soup_def)
next
  case (Some soup)
  let ?ds = "select_class ''div'' ''dlink'' soup"
  from final_mp4_loop_log [of E ?ds "lg @ [level1_url]"] obtain fs where
    fs: "snd (final_mp4_loop E ?ds (lg @ [level1_url])) = (lg @ [level1_url]) @ fs"
        "length fs \<le> length ?ds" "set fs \<subseteq> set (dlink_hrefs ?ds)" by blast
  have "snd (get_final_mp4_url E level1_url lg) = snd (final_mp4_loop E ?ds (lg @ [level1_url]))"
    using Some by (simp add: get_final_mp4_url_def get_soup_def split: prod.splits option.splits)
  with fs Some show ?thesis by simp
qed

text \<open>
  The bound of three requests does not hold: on a level-1 page with three server links to
  download pages that do not answer, the walker makes four requests.
\<close>

theorem walker_fetch_counterexample:
  "snd (get_final_mp4_url (static_env three_servers_site) ''http://s.example/page'' [])
     = [''http://s.example/page'', ''http://s.example/download/1'',
        ''http://s.example/download/2'', ''http://s.example/download/3'']
   \<and> \<not> length (snd (get_final_mp4_url (static_env three_servers_site)
                      ''http://s.example/page'' [])) \<le> 3"
  by code_simp

section \<open>Season pages\<close>

lemma map_update_same: "f x = f (xs ! i) \<Longrightarrow> map f (xs[i := x]) = map f xs"
proof (cases "i < length xs")
  case True
  assume "f x = f (xs ! i)"
  with True have "(map f xs)[i := f x] = (map f xs)[i := map f xs ! i]" by simp
  then show ?thesis by (simp add: map_update)
next
  case False
  then have "length xs \<le> i" by simp
  then have "xs[i := x] = xs" by (rule list_update_beyond)
  then show ?thesis by simp
qed

lemma resolve_resolvable: "resolvable E base_url href \<Longrightarrow> \<exists>u. resolve E base_url href = Inr u"
  by (auto simp: resolvable_def resolve_def)

lemma season_item_skip:
  "\<not> is_download_item li \<Longrightarrow> season_item E base_url li episodes cur = Inr (episodes, cur)"
  by (cases "find_a_href li") (simp_all add: season_item_def is_download_item_def Let_def)

lemma season_item_take:
  "is_download_item li \<Longrightarrow> resolve E base_url (item_href li) = Inr u \<Longrightarrow>
   season_item E base_url li episodes cur =
     Inr (episodes @ [\<lparr>q_quality = item_label li, q_url = u, q_is_direct_download = True,
                        q_file_size = None\<rparr>], Some (length episodes))"
  by (cases "find_a_href li")
     (simp_all add: season_item_def is_download_item_def item_href_def item_label_def
        item_text_def Let_def)

lemma season_loop_order:
  "list_all (\<lambda>li. resolvable E base_url (item_href li)) (filter is_download_item lis) \<Longrightarrow>
   \<exists>eps. season_loop E base_url lis episodes cur = Inr eps
     \<and> map q_quality eps = map q_quality episodes @ map item_label (filter is_download_item lis)
     \<and> map (\<lambda>e. Inr (q_url e)) eps =
         map (\<lambda>e. Inr (q_url e)) episodes
           @ map (\<lambda>li. resolve E base_url (item_href li)) (filter is_download_item lis)
     \<and> map q_is_direct_download eps =
         map q_is_direct_download episodes @ map (\<lambda>li. True) (filter is_download_item lis)"
proof (induction lis arbitrary: episodes cur)
  case Nil
  show ?case by simp
next
  case (Cons li lis)
  have rest: "list_all (\<lambda>li. resolvable E base_url (item_href li)) (filter is_download_item lis)"
    using Cons.prems by (simp split: if_splits)
  obtain episodes1 cur1 where
    item: "season_item E base_url li episodes cur = Inr (episodes1, cur1)"
    and q: "map q_quality episodes1 =
              map q_quality episodes @ map item_label (filter is_download_item [li])"
    and u: "map (\<lambda>e. Inr (q_url e)) episodes1 =
              map (\<lambda>e. Inr (q_url e)) episodes
                @ map (\<lambda>li. resolve E base_url (item_href li)) (filter is_download_item [li])"
    and d: "map q_is_direct_download episodes1 =
              map q_is_direct_download episodes @ map (\<lambda>li. True) (filter is_download_item [li])"
  proof (cases "is_download_item li")
    case False
    with season_item_skip [OF False, of E base_url episodes cur] that show ?thesis by simp
  next
    case True
    with Cons.prems have "resolvable E base_url (item_href li)" by simp
    from resolve_resolvable [OF this] obtain v where v: "resolve E base_url (item_href li) = Inr v"
      by blast
    from season_item_take [OF True v, of episodes cur] True v that show ?thesis by simp
  qed
  define episodes2 where "episodes2 =
    (case (re_search rx_file_size (get_text li), cur1) of
       (Some size_match, Some i) \<Rightarrow>
         episodes1[i := (episodes1 ! i)\<lparr>q_file_size := Some (group size_match 1)\<rparr>]
     | _ \<Rightarrow> episodes1)"
  have step: "season_loop E base_url (li # lis) episodes cur = season_loop E base_url lis episodes2 cur1"
    using item by (simp add: episodes2_def split: option.splits)
  have q2: "map q_quality episodes2 = map q_quality episodes1"
    and u2: "map (\<lambda>e. Inr (q_url e) :: error + string) episodes2 = map (\<lambda>e. Inr (q_url e)) episodes1"
    and d2: "map q_is_direct_download episodes2 = map q_is_direct_download episodes1"
    by (simp_all add: episodes2_def map_update_same split: option.splits)
  from Cons.IH [OF rest, of episodes2 cur1] obtain eps where
    eps: "season_loop E base_url lis episodes2 cur1 = Inr eps"
      "map q_quality eps = map q_quality episodes2 @ map item_label (filter is_download_item lis)"
      "map (\<lambda>e. Inr (q_url e)) eps =
         map (\<lambda>e. Inr (q_url e)) episodes2
           @ map (\<lambda>li. resolve E base_url (item_href li)) (filter is_download_item lis)"
      "map q_is_direct_download eps =
         map q_is_direct_download episodes2 @ map (\<lambda>li. True) (filter is_download_item lis)"
    by blast
  show ?case
    using step eps q u d q2 u2 d2 by (cases "is_download_item li") simp_all
qed

text \<open>
  Claim C5. When the season page is fetched and the references of its download items
  resolve, \<open>_get_episodes_from_season_page\<close> returns one option per download item, in the
  reverse of the document order of the items: labels, URLs and flags are those of the items
  read last to first.
\<close>

theorem season_page_reversed:
  assumes "fetch E lg season_url = Some soup"
    and "list_all
           (\<lambda>li. resolvable E (if base_url = [] then origin E season_url else base_url)
                   (item_href li))
           (download_items soup)"
  shows "\<exists>eps. fst (get_episodes_from_season_page E season_url base_url lg) = Inr eps
           \<and> map q_quality eps = rev (map item_label (download_items soup))
           \<and> map (\<lambda>e. Inr (q_url e)) eps =
               rev (map (\<lambda>li. resolve E (if base_url = [] then origin E season_url else base_url)
                                 (item_href li))
                        (download_items soup))
           \<and> list_all q_is_direct_download eps"
proof -
  let ?base = "if base_url = [] then origin E season_url else base_url"
  from season_loop_order [of E ?base "find_all ''li'' soup" "[]" None] assms(2)
  obtain eps where
    eps: "season_loop E ?base (find_all ''li'' soup) [] None = Inr eps"
      "map q_quality eps = map item_label (download_items soup)"
      "map (\<lambda>e. Inr (q_url e)) eps =
         map (\<lambda>li. resolve E ?base (item_href li)) (download_items soup)"
      "map q_is_direct_download eps = map (\<lambda>li. True) (download_items soup)"
    unfolding download_items_def by auto
  have r: "fst (get_episodes_from_season_page E season_url base_url lg) = Inr (rev eps)"
    using assms(1) eps(1) by (simp add: get_episodes_from_season_page_def get_soup_def Let_def)
  have "set (map q_is_direct_download eps) \<subseteq> {True}"
    unfolding eps(4) by auto
  then have d: "list_all q_is_direct_download (rev eps)"
    by (auto simp: list_all_iff)
  from eps(2) have "rev (map q_quality eps) = rev (map item_label (download_items soup))"
    by simp
  then have "map q_quality (rev eps) = rev (map item_label (download_items soup))"
    by (simp only: rev_map)
  moreover from eps(3) have "rev (map (\<lambda>e. Inr (q_url e) :: error + string) eps) =
      rev (map (\<lambda>li. resolve E ?base (item_href li)) (download_items soup))"
    by simp
  then have "map (\<lambda>e. Inr (q_url e)) (rev eps) =
      rev (map (\<lambda>li. resolve E ?base (item_href li)) (download_items soup))"
    by (simp only: rev_map)
  ultimately show ?thesis using r d by blast
qed

text \<open>
  The example of the claim: the items of the page are, in document order, Ep03, Ep02 and
  Ep01, and the options returned are Ep01, Ep02, Ep03.
\<close>

theorem season_page_reversed_witness:
  "fetch (static_env season_site) [] ''https://isaidub.love/show-season-01-dubbed-movie/''
     = Some season_page
   \<and> map item_label (download_items season_page) = [''Ep03'', ''Ep02'', ''Ep01'']
   \<and> (\<exists>eps. fst (get_episodes_from_season_page (static_env season_site)
                    ''https://isaidub.love/show-season-01-dubbed-movie/''
                    ''https://isaidub.love'' []) = Inr eps
          \<and> map q_quality eps = [''Ep01'', ''Ep02'', ''Ep03''])"
proof -
  have f: "fetch (static_env season_site) [] ''https://isaidub.love/show-season-01-dubbed-movie/''
             = Some season_page"
    by code_simp
  have r: "list_all
             (\<lambda>li. resolvable (static_env season_site)
                     (if ''https://isaidub.love'' = []
                      then origin (static_env season_site)
                             ''https://isaidub.love/show-season-01-dubbed-movie/''
                      else ''https://isaidub.love'')
                     (item_href li))
             (download_items season_page)"
    by code_simp
  have l: "map item_label (download_items season_page) = [''Ep03'', ''Ep02'', ''Ep01'']"
    by code_simp
  from season_page_reversed [OF f r] l f show ?thesis by auto
qed

section \<open>Sequential episode probing\<close>

lemma scan_loop_upt:
  assumes "1 \<le> m" "m \<le> Suc N"
  shows "\<exists>k es. m \<le> Suc k \<and> k \<le> N
     \<and> scan_loop E b s t [m..<Suc N] eps (lg @ map (episode_url b s t) [1..<m])
         = (eps @ es, lg @ map (episode_url b s t) [1..<Suc (min (Suc k) N)])
     \<and> map q_url es = map (episode_url b s t) [m..<Suc k]
     \<and> list_all q_is_direct_download es
     \<and> (\<forall>n\<in>{m..k}. probe_ok E b s t lg n)
     \<and> (k < N \<longrightarrow> \<not> probe_ok E b s t lg (Suc k))"
  using assms
proof (induction "Suc N - m" arbitrary: m eps)
  case 0
  then have m: "m = Suc N" by simp
  have "m \<le> Suc N \<and> N \<le> N
     \<and> scan_loop E b s t [m..<Suc N] eps (lg @ map (episode_url b s t) [1..<m])
         = (eps @ [], lg @ map (episode_url b s t) [1..<Suc (min (Suc N) N)])
     \<and> map q_url ([] :: quality_option list) = map (episode_url b s t) [m..<Suc N]
     \<and> list_all q_is_direct_download []
     \<and> (\<forall>n\<in>{m..N}. probe_ok E b s t lg n)
     \<and> (N < N \<longrightarrow> \<not> probe_ok E b s t lg (Suc N))"
    unfolding m by (simp add: min_def del: upt_Suc)
  then show ?case by blast
next
  case (Suc d)
  then have m: "m < Suc N" "1 \<le> m" by simp_all
  let ?u = "episode_url b s t"
  let ?lg = "lg @ map ?u [1..<m]"
  have upt: "[m..<Suc N] = m # [Suc m..<Suc N]" using m(1) by (rule upt_conv_Cons)
  have "[1..<Suc m] = [1..<m] @ [m]" using m(2) by simp
  then have lg1: "?lg @ [?u m] = lg @ map ?u [1..<Suc m]" by simp
  show ?case
  proof (cases "probe_ok E b s t lg m")
    case False
    have "fst (get_soup E (?u m) ?lg) = None
          \<or> (\<exists>soup. fst (get_soup E (?u m) ?lg) = Some soup \<and> select_dlink_a soup = [])"
      using False by (cases "fetch E ?lg (?u m)") (simp_all add: probe_ok_def get_soup_def)
    moreover have "snd (get_soup E (?u m) ?lg) = lg @ map ?u [1..<Suc m]"
      using lg1 by (simp add: get_soup_def del: upt_Suc)
    ultimately have r: "scan_loop E b s t (m # [Suc m..<Suc N]) eps ?lg
                          = (eps, lg @ map ?u [1..<Suc m])"
      by (cases "get_soup E (?u m) ?lg") (auto simp del: upt_Suc)
    obtain k where k: "m = Suc k" using m(2) by (cases m) auto
    with m(1) have kN: "k < N" by simp
    then have mn: "min (Suc k) N = Suc k" by simp
    have "m \<le> Suc k" "k \<le> N" using k kN by simp_all
    moreover have "min (Suc k) N = m" using mn k by simp
    then have "scan_loop E b s t [m..<Suc N] eps ?lg
                     = (eps @ [], lg @ map ?u [1..<Suc (min (Suc k) N)])"
      using r upt by (simp del: upt_Suc)
    moreover have "map q_url ([] :: quality_option list) = map ?u [m..<Suc k]"
      using k by (simp del: upt_Suc)
    moreover have "list_all q_is_direct_download []" by simp
    moreover have "\<forall>n\<in>{m..k}. probe_ok E b s t lg n" using k by simp
    moreover have "k < N \<longrightarrow> \<not> probe_ok E b s t lg (Suc k)" using False k by simp
    ultimately show ?thesis by blast
  next
    case True
    then obtain soup where soup: "fetch E ?lg (?u m) = Some soup" "select_dlink_a soup \<noteq> []"
      by (cases "fetch E ?lg (?u m)") (simp_all add: probe_ok_def)
    let ?e = "\<lparr>q_quality = episode_title soup m, q_url = ?u m,
               q_is_direct_download = True, q_file_size = None\<rparr>"
    have g: "get_soup E (?u m) ?lg = (Some soup, lg @ map ?u [1..<Suc m])"
      using soup(1) lg1 by (simp add: get_soup_def del: upt_Suc)
    have step: "scan_loop E b s t [m..<Suc N] eps ?lg
                  = scan_loop E b s t [Suc m..<Suc N] (eps @ [?e]) (lg @ map ?u [1..<Suc m])"
      unfolding upt using g soup(2) by (simp del: upt_Suc)
    have "d = Suc N - Suc m" "1 \<le> Suc m" "Suc m \<le> Suc N" using Suc.hyps(2) m by simp_all
    from Suc.hyps(1) [OF this, of "eps @ [?e]"] obtain k es where
      k: "Suc m \<le> Suc k" "k \<le> N"
         "scan_loop E b s t [Suc m..<Suc N] (eps @ [?e]) (lg @ map ?u [1..<Suc m])
            = ((eps @ [?e]) @ es, lg @ map ?u [1..<Suc (min (Suc k) N)])"
         "map q_url es = map ?u [Suc m..<Suc k]"
         "list_all q_is_direct_download es"
         "\<forall>n\<in>{Suc m..k}. probe_ok E b s t lg n"
         "k < N \<longrightarrow> \<not> probe_ok E b s t lg (Suc k)"
      by blast
    from k(1) have "m < Suc k" by simp
    then have "[m..<Suc k] = m # [Suc m..<Suc k]" by (rule upt_conv_Cons)
    with k(4) have u: "map q_url (?e # es) = map ?u [m..<Suc k]" by (simp del: upt_Suc)
    have a: "\<forall>n\<in>{m..k}. probe_ok E b s t lg n"
    proof
      fix n assume "n \<in> {m..k}"
      then have "n = m \<or> n \<in> {Suc m..k}" by auto
      with True k(6) show "probe_ok E b s t lg n" by auto
    qed
    have "m \<le> Suc k" using k(1) by simp
    moreover note k(2)
    moreover have "scan_loop E b s t [m..<Suc N] eps ?lg
           = (eps @ (?e # es), lg @ map ?u [1..<Suc (min (Suc k) N)])"
      using step k(3) by (simp del: upt_Suc)
    moreover note u
    moreover have "list_all q_is_direct_download (?e # es)" using k(5) by simp
    moreover note a k(7)
    ultimately show ?thesis by blast
  qed
qed

text \<open>
  Claim C4. When the series and season are parsed from the URL, the probing requests the
  URLs \<open>{base}/download/{slug}-season-{N}-epi-{NN}/\<close> for the episode numbers 1, 2, ... in
  ascending order, two digits each. With \<open>k\<close> the number of episodes probed successfully before the
  first failure (a failed request or a page without an anchor below \<open>div.dlink\<close>), it
  returns exactly the episodes 1 to \<open>k\<close> in ascending order, each flagged as a direct
  download; it requests the episodes 1 to \<open>k + 1\<close> and nothing else, and never an episode
  beyond 20.
\<close>

theorem episode_probing:
  assumes "parse_series_url movie_url = Some (series_slug, season_num)"
  shows "\<exists>k\<le>20.
      map q_url (fst (scan_moviesda_episodes E movie_url base_url lg))
        = map (episode_url base_url series_slug season_num) [1..<Suc k]
    \<and> list_all q_is_direct_download (fst (scan_moviesda_episodes E movie_url base_url lg))
    \<and> snd (scan_moviesda_episodes E movie_url base_url lg)
        = lg @ map (episode_url base_url series_slug season_num) [1..<Suc (min (Suc k) 20)]
    \<and> (\<forall>n\<in>{1..k}. probe_ok E base_url series_slug season_num lg n)
    \<and> (k < 20 \<longrightarrow> \<not> probe_ok E base_url series_slug season_num lg (Suc k))"
proof -
  have "(1::nat) \<le> 1" "(1::nat) \<le> Suc 20" by simp_all
  from scan_loop_upt [OF this, of E base_url series_slug season_num "[]" lg]
  obtain k es where
    k: "k \<le> 20"
       "scan_loop E base_url series_slug season_num [1..<Suc 20] [] (lg @ map (episode_url base_url series_slug season_num) [1..<1])
          = ([] @ es, lg @ map (episode_url base_url series_slug season_num) [1..<Suc (min (Suc k) 20)])"
       "map q_url es = map (episode_url base_url series_slug season_num) [1..<Suc k]"
       "list_all q_is_direct_download es"
       "\<forall>n\<in>{1..k}. probe_ok E base_url series_slug season_num lg n"
       "k < 20 \<longrightarrow> \<not> probe_ok E base_url series_slug season_num lg (Suc k)"
    by blast
  have n: "[1..<21] = [1..<Suc 20]" by (simp del: upt_Suc)
  have "scan_moviesda_episodes E movie_url base_url lg
          = (es, lg @ map (episode_url base_url series_slug season_num) [1..<Suc (min (Suc k) 20)])"
    using assms k(2) unfolding scan_moviesda_episodes_def n by (simp del: upt_Suc)
  with k(1,3,4,5,6) show ?thesis by (simp del: upt_Suc) blast
qed

text \<open>
  The example of the claim: with pages for the episodes 1 to 7 and none for episode 8, the
  probing returns the seven episodes in ascending order and stops after the request for
  episode 8.
\<close>

theorem episode_probing_witness:
  "parse_series_url ''https://moviesda15.com/show-season-01-2025-tamil-movie/''
     = Some (''show'', ''01'')
   \<and> (\<exists>k\<le>20.
        map q_url (fst (scan_moviesda_episodes (static_env seven_episodes_site)
              ''https://moviesda15.com/show-season-01-2025-tamil-movie/''
              ''https://moviesda15.com'' []))
          = map (episode_url ''https://moviesda15.com'' ''show'' ''01'') [1..<Suc k]
      \<and> list_all q_is_direct_download
          (fst (scan_moviesda_episodes (static_env seven_episodes_site)
              ''https://moviesda15.com/show-season-01-2025-tamil-movie/''
              ''https://moviesda15.com'' []))
      \<and> snd (scan_moviesda_episodes (static_env seven_episodes_site)
              ''https://moviesda15.com/show-season-01-2025-tamil-movie/''
              ''https://moviesda15.com'' [])
          = [] @ map (episode_url ''https://moviesda15.com'' ''show'' ''01'')
                   [1..<Suc (min (Suc k) 20)]
      \<and> (\<forall>n\<in>{1..k}. probe_ok (static_env seven_episodes_site) ''https://moviesda15.com''
                         ''show'' ''01'' [] n)
      \<and> (k < 20 \<longrightarrow> \<not> probe_ok (static_env seven_episodes_site) ''https://moviesda15.com''
                         ''show'' ''01'' [] (Suc k)))
   \<and> map q_url (fst (scan_moviesda_episodes (static_env seven_episodes_site)
          ''https://moviesda15.com/show-season-01-2025-tamil-movie/''
          ''https://moviesda15.com'' []))
       = [''https://moviesda15.com/download/show-season-01-epi-01/'',
          ''https://moviesda15.com/download/show-season-01-epi-02/'',
          ''https://moviesda15.com/download/show-season-01-epi-03/'',
          ''https://moviesda15.com/download/show-season-01-epi-04/'',
          ''https://moviesda15.com/download/show-season-01-epi-05/'',
          ''https://moviesda15.com/download/show-season-01-epi-06/'',
          ''https://moviesda15.com/download/show-season-01-epi-07/'']
   \<and> length (snd (scan_moviesda_episodes (static_env seven_episodes_site)
          ''https://moviesda15.com/show-season-01-2025-tamil-movie/''
          ''https://moviesda15.com'' [])) = 8"
proof -
  have h: "parse_series_url ''https://moviesda15.com/show-season-01-2025-tamil-movie/''
             = Some (''show'', ''01'')"
    by code_simp
  have c: "map q_url (fst (scan_moviesda_episodes (static_env seven_episodes_site)
          ''https://moviesda15.com/show-season-01-2025-tamil-movie/''
          ''https://moviesda15.com'' []))
       = [''https://moviesda15.com/download/show-season-01-epi-01/'',
          ''https://moviesda15.com/download/show-season-01-epi-02/'',
          ''https://moviesda15.com/download/show-season-01-epi-03/'',
          ''https://moviesda15.com/download/show-season-01-epi-04/'',
          ''https://moviesda15.com/download/show-season-01-epi-05/'',
          ''https://moviesda15.com/download/show-season-01-epi-06/'',
          ''https://moviesda15.com/download/show-season-01-epi-07/'']"
    by code_simp
  have l: "length (snd (scan_moviesda_episodes (static_env seven_episodes_site)
          ''https://moviesda15.com/show-season-01-2025-tamil-movie/''
          ''https://moviesda15.com'' [])) = 8"
    by code_simp
  note t = episode_probing [OF h, of "static_env seven_episodes_site"
             "''https://moviesda15.com''" "[]"]
  from h t c l show ?thesis by blast
qed

section \<open>Terminal references\<close>

lemma is_final_redirect_imp: "is_final cdn_domains_redirect h \<Longrightarrow> is_final cdn_domains h"
  by (auto simp: is_final_def cdn_domains_def cdn_domains_redirect_def)

lemma find_is_final: "List.find (is_final cdns) hs = Some h \<Longrightarrow> is_final cdns h"
  by (auto simp: find_Some_iff)

lemma follow_final: "fst (follow_final_redirect E url lg) = Some h \<Longrightarrow> is_final cdn_domains h"
  by (auto simp: follow_final_redirect_def get_soup_def split: option.splits
           dest!: find_is_final is_final_redirect_imp)

lemma final_mp4_loop_Cons:
  "final_mp4_loop E (d # ds) lg =
     (case find_a_href d of
        None \<Rightarrow> final_mp4_loop E ds lg
      | Some link \<Rightarrow>
          if is_final cdn_domains (get_attr link ''href'') then (Some (get_attr link ''href''), lg)
          else if is_redirect (get_attr link ''href'') then
            (if truthy (fst (follow_final_redirect E (get_attr link ''href'') lg))
             then follow_final_redirect E (get_attr link ''href'') lg
             else final_mp4_loop E ds (snd (follow_final_redirect E (get_attr link ''href'') lg)))
          else final_mp4_loop E ds lg)"
  by (simp add: is_redirect_def Let_def split: option.splits prod.splits)

lemma final_mp4_loop_final:
  "fst (final_mp4_loop E ds lg) = Some h \<Longrightarrow> is_final cdn_domains h"
proof (induction ds arbitrary: lg)
  case Nil
  then show ?case by simp
next
  case (Cons d ds)
  show ?case
  proof (cases "find_a_href d")
    case None
    with Cons show ?thesis by simp
  next
    case (Some link)
    let ?h = "get_attr link ''href''"
    show ?thesis
    proof (cases "is_final cdn_domains ?h")
      case True
      with Some Cons.prems show ?thesis by simp
    next
      case nf: False
      show ?thesis
      proof (cases "is_redirect ?h")
        case False
        with Some nf Cons show ?thesis
          by (simp add: final_mp4_loop_Cons del: final_mp4_loop.simps)
      next
        case True
        obtain r lg1 where f: "follow_final_redirect E ?h lg = (r, lg1)"
          by (cases "follow_final_redirect E ?h lg")
        show ?thesis
        proof (cases "truthy r")
          case t: True
          with Some nf True f Cons.prems have "r = Some h"
            by (simp add: final_mp4_loop_Cons del: final_mp4_loop.simps)
          with f follow_final [of E ?h lg h] show ?thesis by simp
        next
          case False
          with Some nf True f Cons.prems have "fst (final_mp4_loop E ds lg1) = Some h"
            by (simp add: final_mp4_loop_Cons del: final_mp4_loop.simps)
          then show ?thesis by (rule Cons.IH)
        qed
      qed
    qed
  qed
qed

lemma final_mp4_loop_direct:
  "list_all (\<lambda>h. \<not> is_redirect h) (takeWhile (\<lambda>h. \<not> is_final cdn_domains h) (dlink_hrefs ds))
   \<Longrightarrow> final_mp4_loop E ds lg = (List.find (is_final cdn_domains) (dlink_hrefs ds), lg)"
proof (induction ds)
  case Nil
  show ?case by (simp add: dlink_hrefs_def List.map_filter_simps)
next
  case (Cons d ds)
  show ?case
  proof (cases "find_a_href d")
    case None
    with Cons show ?thesis by (simp add: dlink_hrefs_Cons)
  next
    case (Some link)
    let ?h = "get_attr link ''href''"
    show ?thesis
    proof (cases "is_final cdn_domains ?h")
      case True
      with Some show ?thesis by (simp add: dlink_hrefs_Cons)
    next
      case False
      with Some Cons.prems have nr: "\<not> is_redirect ?h"
        and rest: "list_all (\<lambda>h. \<not> is_redirect h)
                     (takeWhile (\<lambda>h. \<not> is_final cdn_domains h) (dlink_hrefs ds))"
        by (simp_all add: dlink_hrefs_Cons)
      from Cons.IH [OF rest] Some False nr show ?thesis
        by (simp add: dlink_hrefs_Cons final_mp4_loop_Cons del: final_mp4_loop.simps)
    qed
  qed
qed

lemma follow_final_redirect_eq:
  "follow_final_redirect E url lg =
     (case fetch E lg url of
        None \<Rightarrow> None
      | Some page \<Rightarrow> List.find (is_final cdn_domains_redirect) (all_hrefs page),
      lg @ [url])"
  by (simp add: follow_final_redirect_def get_soup_def all_hrefs_def split: option.splits)

lemma truthy_follow:
  "truthy (fst (follow_final_redirect E url lg)) = (fst (follow_final_redirect E url lg) \<noteq> None)"
  using follow_ne [of E url lg] by (cases "fst (follow_final_redirect E url lg)") (auto simp: truthy_def)

lemma anchor_result_0:
  "anchor_result E (h # hs) lg 0 =
     (if is_final cdn_domains h then Some h
      else if is_redirect h then fst (follow_final_redirect E h lg) else None)"
  by (simp add: anchor_result_def)

lemma anchor_result_Suc:
  "anchor_result E (h # hs) lg (Suc i) =
     anchor_result E hs (if is_hop h then lg @ [h] else lg) i"
  by (simp add: anchor_result_def)

lemma anchor_results_Cons:
  "map (anchor_result E (h # hs) lg) [0..<length (h # hs)] =
     anchor_result E (h # hs) lg 0
     # map (anchor_result E hs (if is_hop h then lg @ [h] else lg)) [0..<length hs]"
proof -
  have "map (anchor_result E (h # hs) lg) [0..<Suc (length hs)] =
     anchor_result E (h # hs) lg 0
     # map (\<lambda>i. anchor_result E (h # hs) lg (Suc i)) [0..<length hs]"
    by (rule map_upt_Suc)
  then show ?thesis by (simp only: anchor_result_Suc length_Cons)
qed

lemma final_mp4_loop_closed:
  "final_mp4_loop E ds lg =
     (let hs = dlink_hrefs ds;
          rs = map (anchor_result E hs lg) [0..<length hs]
      in (case List.find (\<lambda>r. r \<noteq> None) rs of Some r \<Rightarrow> r | None \<Rightarrow> None,
          lg @ filter is_hop (take (tried rs) hs)))"
proof (induction ds arbitrary: lg)
  case Nil
  show ?case by (simp add: dlink_hrefs_def List.map_filter_simps)
next
  case (Cons d ds)
  show ?case
  proof (cases "find_a_href d")
    case None
    then show ?thesis using Cons.IH [of lg]
      by (simp add: dlink_hrefs_Cons final_mp4_loop_Cons del: final_mp4_loop.simps)
  next
    case (Some link)
    let ?h = "get_attr link ''href''"
    have hs: "dlink_hrefs (d # ds) = ?h # dlink_hrefs ds"
      using Some by (simp add: dlink_hrefs_Cons)
    show ?thesis
    proof (cases "is_final cdn_domains ?h")
      case True
      then show ?thesis using Some
        by (simp only: hs Let_def anchor_results_Cons anchor_result_0 final_mp4_loop_Cons)
           (simp add: tried_Some is_hop_def)
    next
      case nf: False
      show ?thesis
      proof (cases "is_redirect ?h")
        case False
        then show ?thesis using Some nf Cons.IH [of lg]
          by (simp only: hs Let_def anchor_results_Cons anchor_result_0 final_mp4_loop_Cons)
             (simp add: tried_None is_hop_def Let_def)
      next
        case True
        show ?thesis
        proof (cases "fst (follow_final_redirect E ?h lg)")
          case None
          then show ?thesis using Some nf True Cons.IH [of "lg @ [?h]"] follow_log [of E ?h lg]
            by (simp only: hs Let_def anchor_results_Cons anchor_result_0 final_mp4_loop_Cons)
               (simp add: tried_None is_hop_def Let_def truthy_def)
        next
          case (Some u)
          then show ?thesis
            using \<open>find_a_href d = Some link\<close> nf True follow_log [of E ?h lg]
              truthy_follow [of E ?h lg]
            by (simp only: hs Let_def anchor_results_Cons anchor_result_0 final_mp4_loop_Cons)
               (simp add: tried_Some is_hop_def prod_eq_iff)
        qed
      qed
    qed
  qed
qed

lemma find_append_case:
  "List.find P (xs @ ys) = (case List.find P xs of None \<Rightarrow> List.find P ys | Some x \<Rightarrow> Some x)"
  by (induction xs) simp_all

lemma get_final_mp4_url_closed:
  "get_final_mp4_url E level1_url lg =
     (case fetch E lg level1_url of
        None \<Rightarrow> (None, lg @ [level1_url])
      | Some soup \<Rightarrow>
          (let hs = dlink_hrefs (select_class ''div'' ''dlink'' soup);
               rs = map (anchor_result E hs (lg @ [level1_url])) [0..<length hs]
           in (case List.find (\<lambda>r. r \<noteq> None) rs of
                 Some r \<Rightarrow> r
               | None \<Rightarrow> List.find (is_final cdn_domains) (all_hrefs soup),
               (lg @ [level1_url]) @ filter is_hop (take (tried rs) hs))))"
proof (cases "fetch E lg level1_url")
  case None
  then show ?thesis by (simp add: get_final_mp4_url_def get_soup_def)
next
  case (Some soup)
  let ?hs = "dlink_hrefs (select_class ''div'' ''dlink'' soup)"
  let ?rs = "map (anchor_result E ?hs (lg @ [level1_url])) [0..<length ?hs]"
  show ?thesis
  proof (cases "List.find (\<lambda>r. r \<noteq> None) ?rs")
    case None
    then show ?thesis using Some
      by (simp add: get_final_mp4_url_def get_soup_def final_mp4_loop_closed Let_def all_hrefs_def)
  next
    case f: (Some r)
    then have "r \<noteq> None" by (auto simp: find_Some_iff)
    then obtain u where "r = Some u" by auto
    with f show ?thesis using Some
      by (simp add: get_final_mp4_url_def get_soup_def final_mp4_loop_closed Let_def all_hrefs_def)
  qed
qed

lemma walker_final:
  "fst (get_final_mp4_url E level1_url lg) = Some h \<Longrightarrow> is_final cdn_domains h"
proof (cases "fetch E lg level1_url")
  case None
  assume "fst (get_final_mp4_url E level1_url lg) = Some h"
  with None show ?thesis by (simp add: get_final_mp4_url_def get_soup_def)
next
  case (Some soup)
  assume a: "fst (get_final_mp4_url E level1_url lg) = Some h"
  let ?ds = "select_class ''div'' ''dlink'' soup"
  let ?lg = "lg @ [level1_url]"
  show "is_final cdn_domains h"
  proof (cases "fst (final_mp4_loop E ?ds ?lg)")
    case None
    with a Some have "List.find (is_final cdn_domains) (all_hrefs soup) = Some h"
      by (simp add: get_final_mp4_url_def get_soup_def all_hrefs_def split: prod.splits)
    then show ?thesis by (rule find_is_final)
  next
    case v: (Some v)
    with a Some have "v = h"
      by (simp add: get_final_mp4_url_def get_soup_def split: prod.splits)
    with v show ?thesis by (simp add: final_mp4_loop_final)
  qed
qed

lemma walker_direct:
  assumes "fetch E lg level1_url = Some soup"
    and "list_all (\<lambda>h. \<not> is_redirect h)
           (takeWhile (\<lambda>h. \<not> is_final cdn_domains h)
              (dlink_hrefs (select_class ''div'' ''dlink'' soup)))"
  shows "get_final_mp4_url E level1_url lg
          = (List.find (is_final cdn_domains)
               (dlink_hrefs (select_class ''div'' ''dlink'' soup) @ all_hrefs soup),
             lg @ [level1_url])"
proof -
  let ?ds = "select_class ''div'' ''dlink'' soup"
  have l: "final_mp4_loop E ?ds (lg @ [level1_url])
                  = (List.find (is_final cdn_domains) (dlink_hrefs ?ds), lg @ [level1_url])"
    using assms(2) by (rule final_mp4_loop_direct)
  show ?thesis
    using assms(1) l
    by (simp add: get_final_mp4_url_def get_soup_def all_hrefs_def find_append_case
          split: option.splits)
qed

text \<open>
  Claim C6, as amended. The terminal test of the source looks for \<open>.mp4\<close> and for the CDN
  name fragments anywhere in the lower-cased reference, not at its end or in its host name:
  six fragments on the level-1 page, and the same without \<open>dubmv\<close> on a redirect page.
  A redirect page is requested once and gives the first reference among all its anchors
  that passes its test, unchanged, or nothing when the page cannot be fetched or has none.
  The walker requests the level-1 page; when that fails it returns nothing. Otherwise it
  takes the references of the first anchors of the \<open>div.dlink\<close> elements in document order:
  a terminal reference gives itself, a reference to a redirect page gives what that page
  gives, any other gives nothing; the walker returns the first result that is a URL, having
  requested, after the level-1 page, exactly the redirect pages of the references up to
  that one. When no reference gives a URL it returns the first terminal reference among
  all anchors of the level-1 page, or nothing. So whatever it returns is a reference of a
  visited page, unchanged, that passes the level-1 test; and when no reference to a
  redirect page comes before the first terminal one among the \<open>div.dlink\<close> anchors, the
  walker makes the single request and returns the first terminal reference in its scan
  order: the \<open>div.dlink\<close> anchors first, then all anchors of the page.
\<close>

theorem walker_returns_terminal:
  "is_final cdn_domains href =
           (sublist ''.mp4'' (lower href)
            \<or> (\<exists>cdn\<in>set [''biggshare'', ''hotshare'', ''dubshare'', ''dubmv'', ''uptodub'',
                            ''uptomkv'']. sublist cdn (lower href)))
   \<and> is_final cdn_domains_redirect href =
           (sublist ''.mp4'' (lower href)
            \<or> (\<exists>cdn\<in>set [''biggshare'', ''hotshare'', ''dubshare'', ''uptodub'',
                            ''uptomkv'']. sublist cdn (lower href)))
   \<and> follow_final_redirect E url lg =
        (case fetch E lg url of
           None \<Rightarrow> None
         | Some page \<Rightarrow> List.find (is_final cdn_domains_redirect) (all_hrefs page),
         lg @ [url])
   \<and> get_final_mp4_url E level1_url lg =
        (case fetch E lg level1_url of
           None \<Rightarrow> (None, lg @ [level1_url])
         | Some soup \<Rightarrow>
             (let hs = dlink_hrefs (select_class ''div'' ''dlink'' soup);
                  rs = map (anchor_result E hs (lg @ [level1_url])) [0..<length hs]
              in (case List.find (\<lambda>r. r \<noteq> None) rs of
                    Some r \<Rightarrow> r
                  | None \<Rightarrow> List.find (is_final cdn_domains) (all_hrefs soup),
                  (lg @ [level1_url]) @ filter is_hop (take (tried rs) hs))))
   \<and> (\<forall>h. fst (get_final_mp4_url E level1_url lg) = Some h \<longrightarrow> is_final cdn_domains h)
   \<and> (\<forall>soup. fetch E lg level1_url = Some soup
         \<longrightarrow> list_all (\<lambda>h. \<not> is_redirect h)
               (takeWhile (\<lambda>h. \<not> is_final cdn_domains h)
                  (dlink_hrefs (select_class ''div'' ''dlink'' soup)))
         \<longrightarrow> get_final_mp4_url E level1_url lg
                = (List.find (is_final cdn_domains)
                     (dlink_hrefs (select_class ''div'' ''dlink'' soup) @ all_hrefs soup),
                   lg @ [level1_url]))"
proof (intro conjI allI impI)
  show "is_final cdn_domains href =
           (sublist ''.mp4'' (lower href)
            \<or> (\<exists>cdn\<in>set [''biggshare'', ''hotshare'', ''dubshare'', ''dubmv'', ''uptodub'',
                            ''uptomkv'']. sublist cdn (lower href)))"
    by (simp add: is_final_def cdn_domains_def list_ex_iff)
next
  show "is_final cdn_domains_redirect href =
           (sublist ''.mp4'' (lower href)
            \<or> (\<exists>cdn\<in>set [''biggshare'', ''hotshare'', ''dubshare'', ''uptodub'',
                            ''uptomkv'']. sublist cdn (lower href)))"
    by (simp add: is_final_def cdn_domains_redirect_def list_ex_iff)
next
  show "follow_final_redirect E url lg =
        (case fetch E lg url of
           None \<Rightarrow> None
         | Some page \<Rightarrow> List.find (is_final cdn_domains_redirect) (all_hrefs page),
         lg @ [url])"
    by (rule follow_final_redirect_eq)
next
  show "get_final_mp4_url E level1_url lg =
        (case fetch E lg level1_url of
           None \<Rightarrow> (None, lg @ [level1_url])
         | Some soup \<Rightarrow>
             (let hs = dlink_hrefs (select_class ''div'' ''dlink'' soup);
                  rs = map (anchor_result E hs (lg @ [level1_url])) [0..<length hs]
              in (case List.find (\<lambda>r. r \<noteq> None) rs of
                    Some r \<Rightarrow> r
                  | None \<Rightarrow> List.find (is_final cdn_domains) (all_hrefs soup),
                  (lg @ [level1_url]) @ filter is_hop (take (tried rs) hs))))"
    by (rule get_final_mp4_url_closed)
next
  fix h
  assume "fst (get_final_mp4_url E level1_url lg) = Some h"
  then show "is_final cdn_domains h" by (rule walker_final)
next
  fix soup
  assume "fetch E lg level1_url = Some soup"
    and "list_all (\<lambda>h. \<not> is_redirect h)
           (takeWhile (\<lambda>h. \<not> is_final cdn_domains h)
              (dlink_hrefs (select_class ''div'' ''dlink'' soup)))"
  then show "get_final_mp4_url E level1_url lg
          = (List.find (is_final cdn_domains)
               (dlink_hrefs (select_class ''div'' ''dlink'' soup) @ all_hrefs soup),
             lg @ [level1_url])"
    by (rule walker_direct)
qed

text \<open>
  Two examples. The level-1 page of the claim has a link to \<open>.../movie_1080p.mp4\<close>, and the
  walker returns it unchanged after one request. On the other level-1 page the first
  server does not answer and the second leads to a redirect page: there the \<open>dubmv\<close> link,
  terminal on a level-1 page, is passed over, the media link after it is returned
  unchanged after three requests, and the media link of the level-1 page itself, which
  comes later, is not.
\<close>

theorem walker_returns_terminal_witness:
  "fetch (static_env mp4_site) [] ''http://s.example/page'' = Some mp4_page
   \<and> list_all (\<lambda>h. \<not> is_redirect h)
        (takeWhile (\<lambda>h. \<not> is_final cdn_domains h)
           (dlink_hrefs (select_class ''div'' ''dlink'' mp4_page)))
   \<and> get_final_mp4_url (static_env mp4_site) ''http://s.example/page'' []
       = (Some ''https://files.example/store/movie_1080p.mp4'', [''http://s.example/page''])
   \<and> is_final cdn_domains ''https://files.example/store/movie_1080p.mp4''
   \<and> fetch (static_env redirect_site) [] ''http://s.example/level1'' = Some level1_page
   \<and> dlink_hrefs (select_class ''div'' ''dlink'' level1_page)
       = [''http://r.example/download/1'', ''http://r.example/download/2'',
          ''https://cdn.biggshare.xyz/late.mp4'']
   \<and> map (anchor_result (static_env redirect_site)
             [''http://r.example/download/1'', ''http://r.example/download/2'',
              ''https://cdn.biggshare.xyz/late.mp4'']
             [''http://s.example/level1'']) [0..<3]
       = [None, Some ''https://cdn.hotshare.link/film.mp4'',
          Some ''https://cdn.biggshare.xyz/late.mp4'']
   \<and> is_final cdn_domains ''https://dubmv.top/film''
   \<and> \<not> is_final cdn_domains_redirect ''https://dubmv.top/film''
   \<and> get_final_mp4_url (static_env redirect_site) ''http://s.example/level1'' []
       = (Some ''https://cdn.hotshare.link/film.mp4'',
          [''http://s.example/level1'', ''http://r.example/download/1'',
           ''http://r.example/download/2''])"
proof -
  let ?E = "static_env redirect_site"
  let ?hs = "[''http://r.example/download/1'', ''http://r.example/download/2'',
              ''https://cdn.biggshare.xyz/late.mp4'']"
  have f: "fetch (static_env mp4_site) [] ''http://s.example/page'' = Some mp4_page"
    by code_simp
  have n: "list_all (\<lambda>h. \<not> is_redirect h)
        (takeWhile (\<lambda>h. \<not> is_final cdn_domains h)
           (dlink_hrefs (select_class ''div'' ''dlink'' mp4_page)))"
    by code_simp
  have v: "List.find (is_final cdn_domains)
             (dlink_hrefs (select_class ''div'' ''dlink'' mp4_page) @ all_hrefs mp4_page)
           = Some ''https://files.example/store/movie_1080p.mp4''"
    by code_simp
  have g: "fetch ?E [] ''http://s.example/level1'' = Some level1_page"
    by code_simp
  have hs: "dlink_hrefs (select_class ''div'' ''dlink'' level1_page) = ?hs"
    by code_simp
  have rs: "map (anchor_result ?E ?hs [''http://s.example/level1'']) [0..<3]
       = [None, Some ''https://cdn.hotshare.link/film.mp4'',
          Some ''https://cdn.biggshare.xyz/late.mp4'']"
    by code_simp
  have hop: "filter is_hop [''http://r.example/download/1'', ''http://r.example/download/2'']
       = [''http://r.example/download/1'', ''http://r.example/download/2'']"
    by code_simp
  have d: "\<not> is_final cdn_domains_redirect ''https://dubmv.top/film''"
    by code_simp
  have d1: "is_final cdn_domains ''https://dubmv.top/film''"
    by code_simp
  note T = walker_returns_terminal
            [of "''https://files.example/store/movie_1080p.mp4''" "static_env mp4_site"
                "''http://s.example/page''" "[]" "''http://s.example/page''"]
  have w1: "get_final_mp4_url (static_env mp4_site) ''http://s.example/page'' []
       = (Some ''https://files.example/store/movie_1080p.mp4'', [''http://s.example/page''])"
    using conjunct2 [OF conjunct2 [OF conjunct2 [OF conjunct2 [OF conjunct2 [OF T]]]]] f n v
    by simp
  have "\<forall>h. fst (get_final_mp4_url (static_env mp4_site) ''http://s.example/page'' []) = Some h
          \<longrightarrow> is_final cdn_domains h"
    by (rule conjunct1 [OF conjunct2 [OF conjunct2 [OF conjunct2 [OF conjunct2 [OF T]]]]])
  then have d2: "is_final cdn_domains ''https://files.example/store/movie_1080p.mp4''"
    by (simp only: w1 fst_conv)
  have eq3: "length ?hs = 3" by simp
  have w2: "get_final_mp4_url ?E ''http://s.example/level1'' []
       = (Some ''https://cdn.hotshare.link/film.mp4'',
          [''http://s.example/level1'', ''http://r.example/download/1'',
           ''http://r.example/download/2''])"
    using conjunct1 [OF conjunct2 [OF conjunct2 [OF conjunct2 [OF walker_returns_terminal
            [of "''https://dubmv.top/film''" ?E "''http://s.example/level1''" "[]"
                "''http://s.example/level1''"]]]]]
    by (simp only: g hs option.simps Let_def eq3 rs append_Nil)
       (simp add: tried_def hop del: filter.simps)
  from f n w1 d2 g hs rs d1 d w2 show ?thesis by simp
qed

text \<open>
  The terminal test is not the one of the claim: a reference to an HTML page on an ordinary
  host, with \<open>.mp4\<close> inside its name, neither ends in a media-file extension nor has a CDN
  host name, and the walker returns it as the media URL.
\<close>

theorem terminal_counterexample:
  "is_final cdn_domains ''http://files.example/movie.mp4.html''
   \<and> \<not> spec_terminal ''http://files.example/movie.mp4.html''
   \<and> get_final_mp4_url (static_env mp4_site) ''http://s.example/other'' []
       = (Some ''http://files.example/movie.mp4.html'', [''http://s.example/other''])"
  by code_simp

section \<open>Poster candidates of picture elements\<close>

lemma picture_img_kept:
  "truthy (poster_url images) \<or> \<not> img_candidate picture \<Longrightarrow>
   picture_img E base_url picture images = Inr images"
  by (cases "find_tag ''img'' picture") (auto simp: picture_img_def img_candidate_def Let_def)

lemma picture_source_kept:
  "\<not> source_candidate picture \<Longrightarrow> picture_source E base_url picture images = Inr images"
  by (cases "find_tag ''source'' picture") (auto simp: picture_source_def source_candidate_def Let_def)

lemma picture_source_taken:
  "find_tag ''source'' picture = Some source \<Longrightarrow>
   sublist ''/uploads/posters/'' (get_attr source ''srcset'') \<Longrightarrow>
   split (get_attr source ''srcset'') = src_url # rest \<Longrightarrow>
   resolve E base_url src_url = Inr u \<Longrightarrow>
   picture_source E base_url picture images = Inr (images\<lparr>poster_url := Some u\<rparr>)"
  by (auto simp: picture_source_def Let_def)

lemma picture_loop_kept:
  "truthy (poster_url images) \<Longrightarrow> list_all (\<lambda>p. \<not> source_candidate p) pictures \<Longrightarrow>
   picture_loop E base_url pictures images = Inr images"
  by (induction pictures) (simp_all add: picture_source_kept picture_img_kept)

text \<open>
  Claim C9, as amended. In the loop over the \<open>picture\<close> elements, the nested \<open>img\<close> is taken
  only when no poster has been found so far and its \<open>src\<close> contains \<open>/uploads/posters/\<close>;
  it never replaces a poster. The nested \<open>source\<close> is taken only when its \<open>srcset\<close>
  contains \<open>/uploads/posters/\<close>, but whether or not a poster has been found: the poster
  becomes the first entry of the \<open>srcset\<close>, resolved. So a poster found earlier is kept
  through the loop when no \<open>picture\<close> has such a \<open>source\<close>.
\<close>

theorem picture_poster_rules:
  "(truthy (poster_url images) \<or> \<not> img_candidate picture
      \<longrightarrow> picture_img E base_url picture images = Inr images)
   \<and> (\<not> source_candidate picture \<longrightarrow> picture_source E base_url picture images = Inr images)
   \<and> (find_tag ''source'' picture = Some source
        \<and> sublist ''/uploads/posters/'' (get_attr source ''srcset'')
        \<and> split (get_attr source ''srcset'') = src_url # rest
        \<and> resolve E base_url src_url = Inr u
      \<longrightarrow> picture_source E base_url picture images = Inr (images\<lparr>poster_url := Some u\<rparr>))
   \<and> (truthy (poster_url images) \<and> list_all (\<lambda>p. \<not> source_candidate p) pictures
      \<longrightarrow> picture_loop E base_url pictures images = Inr images)"
  using picture_img_kept [of images picture E base_url]
    picture_source_kept [of picture E base_url images]
    picture_source_taken [of picture source src_url rest E base_url u images]
    picture_loop_kept [of images pictures E base_url]
  by blast

text \<open>
  Both kinds of \<open>picture\<close> with a poster already found: one that has only an \<open>img\<close> leaves
  the poster alone, one that has a poster \<open>source\<close> replaces it.
\<close>

theorem picture_poster_rules_witness:
  "truthy (poster_url film_poster)
   \<and> \<not> source_candidate picture_with_img
   \<and> picture_img (static_env []) ''https://moviesda15.com'' picture_with_img film_poster
        = Inr film_poster
   \<and> picture_source (static_env []) ''https://moviesda15.com'' picture_with_img film_poster
        = Inr film_poster
   \<and> picture_loop (static_env []) ''https://moviesda15.com'' [picture_with_img] film_poster
        = Inr film_poster
   \<and> find_tag ''source'' picture_with_source
        = Some (Element ''source''
                  [(''srcset'', ''https://moviesda15.com/uploads/posters/small.webp 1x'')] [])
   \<and> picture_source (static_env []) ''https://moviesda15.com'' picture_with_source film_poster
        = Inr (film_poster\<lparr>poster_url := Some ''https://moviesda15.com/uploads/posters/small.webp''\<rparr>)"
proof -
  let ?E = "static_env []"
  let ?b = "''https://moviesda15.com''"
  let ?src = "Element ''source''
                [(''srcset'', ''https://moviesda15.com/uploads/posters/small.webp 1x'')] []"
  let ?u = "''https://moviesda15.com/uploads/posters/small.webp''"
  have t: "truthy (poster_url film_poster)" by code_simp
  have n: "\<not> source_candidate picture_with_img" by code_simp
  have l: "list_all (\<lambda>p. \<not> source_candidate p) [picture_with_img]" using n by simp
  have f: "find_tag ''source'' picture_with_source = Some ?src" by code_simp
  have c: "sublist ''/uploads/posters/'' (get_attr ?src ''srcset'')" by code_simp
  have s: "split (get_attr ?src ''srcset'') = ?u # [''1x'']" by code_simp
  have r: "resolve ?E ?b ?u = Inr ?u" by code_simp
  note a = picture_poster_rules [of film_poster picture_with_img ?E ?b ?src ?u "[''1x'']" ?u
             "[picture_with_img]"]
  note b = picture_poster_rules [of film_poster picture_with_source ?E ?b ?src ?u "[''1x'']" ?u
             "[picture_with_img]"]
  from a t n l have
    "picture_img ?E ?b picture_with_img film_poster = Inr film_poster"
    "picture_source ?E ?b picture_with_img film_poster = Inr film_poster"
    "picture_loop ?E ?b [picture_with_img] film_poster = Inr film_poster"
    by blast+
  moreover from b f c s r have
    "picture_source ?E ?b picture_with_source film_poster
       = Inr (film_poster\<lparr>poster_url := Some ?u\<rparr>)"
    by blast
  ultimately show ?thesis using t n f by blast
qed

text \<open>
  A poster found by the scan of the \<open>img\<close> elements is replaced by the \<open>source\<close> of a later
  \<open>picture\<close>: the page has the poster \<open>film.jpg\<close>, and the images returned have
  \<open>small.webp\<close>.
\<close>

theorem picture_overwrites_counterexample:
  "img_loop (static_env []) ''https://moviesda15.com'' (find_all ''img'' poster_page) no_images
     = Inr \<lparr>poster_url = Some ''https://moviesda15.com/uploads/posters/film.jpg'',
            screenshots = []\<rparr>
   \<and> get_movie_images (static_env []) poster_page
         ''https://moviesda15.com/film-2024-tamil-movie/''
     = Inr \<lparr>poster_url = Some ''https://moviesda15.com/uploads/posters/small.webp'',
            screenshots = []\<rparr>"
  by code_simp

section \<open>Download entries of a direct-download option\<close>

lemma direct_item_skip:
  "\<not> is_download_item li \<Longrightarrow>
   direct_item E base_url li downloads cur lg = (Inr (downloads, cur), lg)"
  by (cases "find_a_href li") (simp_all add: direct_item_def is_download_item_def Let_def)

lemma direct_item_take:
  "is_download_item li \<Longrightarrow> resolve E base_url (item_href li) = Inr u \<Longrightarrow>
   direct_item E base_url li downloads cur lg =
     (Inr (downloads @ [\<lparr>d_filename = item_text li, d_intermediate_url = u,
                           d_direct_links = fst (get_server_links E u lg),
                           d_file_size = Some []\<rparr>], Some (length downloads)),
      snd (get_server_links E u lg))"
  by (cases "find_a_href li")
     (simp_all add: direct_item_def is_download_item_def item_href_def item_text_def Let_def
        split: prod.splits)

lemma direct_loop_order:
  "list_all (\<lambda>li. resolvable E base_url (item_href li)) (filter is_download_item lis) \<Longrightarrow>
   \<exists>ds lg'. direct_loop E base_url lis downloads cur lg = (Inr ds, lg')
     \<and> map d_filename ds = map d_filename downloads @ map item_text (filter is_download_item lis)
     \<and> map (\<lambda>d. Inr (d_intermediate_url d)) ds =
         map (\<lambda>d. Inr (d_intermediate_url d)) downloads
           @ map (\<lambda>li. resolve E base_url (item_href li)) (filter is_download_item lis)"
proof (induction lis arbitrary: downloads cur lg)
  case Nil
  show ?case by simp
next
  case (Cons li lis)
  have rest: "list_all (\<lambda>li. resolvable E base_url (item_href li)) (filter is_download_item lis)"
    using Cons.prems by (simp split: if_splits)
  obtain downloads1 cur1 lg1 where
    item: "direct_item E base_url li downloads cur lg = (Inr (downloads1, cur1), lg1)"
    and f: "map d_filename downloads1 =
              map d_filename downloads @ map item_text (filter is_download_item [li])"
    and u: "map (\<lambda>d. Inr (d_intermediate_url d)) downloads1 =
              map (\<lambda>d. Inr (d_intermediate_url d)) downloads
                @ map (\<lambda>li. resolve E base_url (item_href li)) (filter is_download_item [li])"
  proof (cases "is_download_item li")
    case False
    with direct_item_skip [OF False, of E base_url downloads cur lg] that show ?thesis by simp
  next
    case True
    with Cons.prems have "resolvable E base_url (item_href li)" by simp
    from resolve_resolvable [OF this] obtain v where v: "resolve E base_url (item_href li) = Inr v"
      by blast
    from direct_item_take [OF True v, of downloads cur lg] True v that show ?thesis by simp
  qed
  define downloads2 where "downloads2 =
    (case (re_search rx_file_size (get_text li), cur1) of
       (Some size_match, Some i) \<Rightarrow>
         downloads1[i := (downloads1 ! i)\<lparr>d_file_size := Some (group size_match 1)\<rparr>]
     | _ \<Rightarrow> downloads1)"
  have step: "direct_loop E base_url (li # lis) downloads cur lg
                = direct_loop E base_url lis downloads2 cur1 lg1"
    using item by (simp add: downloads2_def split: option.splits)
  have f2: "map d_filename downloads2 = map d_filename downloads1"
    and u2: "map (\<lambda>d. Inr (d_intermediate_url d) :: error + string) downloads2
               = map (\<lambda>d. Inr (d_intermediate_url d)) downloads1"
    by (simp_all add: downloads2_def map_update_same split: option.splits)
  from Cons.IH [OF rest, of downloads2 cur1 lg1] obtain ds lg' where
    ds: "direct_loop E base_url lis downloads2 cur1 lg1 = (Inr ds, lg')"
      "map d_filename ds = map d_filename downloads2 @ map item_text (filter is_download_item lis)"
      "map (\<lambda>d. Inr (d_intermediate_url d)) ds =
         map (\<lambda>d. Inr (d_intermediate_url d)) downloads2
           @ map (\<lambda>li. resolve E base_url (item_href li)) (filter is_download_item lis)"
    by blast
  have "map d_filename ds = map d_filename downloads @ map item_text (filter is_download_item (li # lis))"
    using ds(2) f f2 by (cases "is_download_item li") simp_all
  moreover have "map (\<lambda>d. Inr (d_intermediate_url d)) ds =
         map (\<lambda>d. Inr (d_intermediate_url d)) downloads
           @ map (\<lambda>li. resolve E base_url (item_href li)) (filter is_download_item (li # lis))"
    using ds(3) u u2 by (cases "is_download_item li") simp_all
  ultimately show ?case using step ds(1) by simp
qed

text \<open>
  Claim C7, as amended. For a quality option flagged as a direct download whose page is
  fetched: if the page has an anchor below a \<open>div.dlink\<close>, the aggregator produces exactly
  one download entry, named after the option and pointing at the option's own URL;
  otherwise, if the references of the download items resolve, it produces exactly one
  entry per list item whose first \<open>href\<close>-bearing anchor is a download link, in document
  order, named after the text of that anchor.
\<close>

theorem direct_download_entries:
  assumes "q_is_direct_download q" and "fetch E lg (q_url q) = Some soup"
  shows "(select_dlink_a soup \<noteq> []
          \<longrightarrow> (\<exists>servers. fst (scrape_loop E [q] [] lg) =
                 Inr [\<lparr>qi_quality = q_quality q,
                       qi_downloads =
                         [\<lparr>d_filename = q_quality q, d_intermediate_url = q_url q,
                           d_direct_links = servers, d_file_size = Some []\<rparr>]\<rparr>]))
       \<and> (select_dlink_a soup = []
          \<and> list_all (\<lambda>li. resolvable E (origin E (q_url q)) (item_href li)) (download_items soup)
          \<longrightarrow> (\<exists>ds. fst (scrape_loop E [q] [] lg) = Inr [\<lparr>qi_quality = q_quality q, qi_downloads = ds\<rparr>]
                 \<and> map d_filename ds = map item_text (download_items soup)
                 \<and> map (\<lambda>d. Inr (d_intermediate_url d)) ds =
                     map (\<lambda>li. resolve E (origin E (q_url q)) (item_href li))
                       (download_items soup)))"
proof (intro conjI impI)
  assume d: "select_dlink_a soup \<noteq> []"
  obtain servers lg2 where g: "get_server_links E (q_url q) (lg @ [q_url q]) = (servers, lg2)"
    by (cases "get_server_links E (q_url q) (lg @ [q_url q])")
  with assms d have "direct_downloads E q lg =
      (Inr [\<lparr>d_filename = q_quality q, d_intermediate_url = q_url q,
             d_direct_links = servers, d_file_size = Some []\<rparr>], lg2)"
    by (simp add: direct_downloads_def get_soup_def)
  with assms(1) show "\<exists>servers. fst (scrape_loop E [q] [] lg) =
                 Inr [\<lparr>qi_quality = q_quality q,
                       qi_downloads =
                         [\<lparr>d_filename = q_quality q, d_intermediate_url = q_url q,
                           d_direct_links = servers, d_file_size = Some []\<rparr>]\<rparr>]"
    by simp
next
  let ?base = "origin E (q_url q)"
  assume a: "select_dlink_a soup = []
      \<and> list_all (\<lambda>li. resolvable E ?base (item_href li)) (download_items soup)"
  then have "list_all (\<lambda>li. resolvable E ?base (item_href li))
               (filter is_download_item (find_all ''li'' soup))"
    by (simp add: download_items_def)
  from direct_loop_order [OF this, of "[]" None "lg @ [q_url q]"] obtain ds lg' where
    ds: "direct_loop E ?base (find_all ''li'' soup) [] None (lg @ [q_url q]) = (Inr ds, lg')"
      "map d_filename ds = map item_text (download_items soup)"
      "map (\<lambda>d. Inr (d_intermediate_url d)) ds =
         map (\<lambda>li. resolve E ?base (item_href li)) (download_items soup)"
    by (auto simp: download_items_def)
  from assms a ds(1) have "direct_downloads E q lg = (Inr ds, lg')"
    by (simp add: direct_downloads_def get_soup_def)
  with assms(1) have "fst (scrape_loop E [q] [] lg) = Inr [\<lparr>qi_quality = q_quality q, qi_downloads = ds\<rparr>]"
    by simp
  with ds(2,3) show "\<exists>ds. fst (scrape_loop E [q] [] lg) = Inr [\<lparr>qi_quality = q_quality q, qi_downloads = ds\<rparr>]
                 \<and> map d_filename ds = map item_text (download_items soup)
                 \<and> map (\<lambda>d. Inr (d_intermediate_url d)) ds =
                     map (\<lambda>li. resolve E ?base (item_href li)) (download_items soup)"
    by blast
qed

text \<open>
  Both kinds of page: an episode page with a server link gives one entry for the option
  itself; the list-style page gives one entry for its one download item.
\<close>

theorem direct_download_entries_witness:
  "q_is_direct_download episode_option
   \<and> fetch (static_env seven_episodes_site) [] (q_url episode_option) = Some episode_page
   \<and> select_dlink_a episode_page \<noteq> []
   \<and> (\<exists>servers. fst (scrape_loop (static_env seven_episodes_site) [episode_option] [] []) =
         Inr [\<lparr>qi_quality = q_quality episode_option,
               qi_downloads =
                 [\<lparr>d_filename = q_quality episode_option,
                   d_intermediate_url = q_url episode_option,
                   d_direct_links = servers, d_file_size = Some []\<rparr>]\<rparr>])
   \<and> q_is_direct_download files_option
   \<and> fetch (static_env files_site) [] (q_url files_option) = Some files_page
   \<and> select_dlink_a files_page = []
   \<and> list_all (\<lambda>li. resolvable (static_env files_site)
                       (origin (static_env files_site) (q_url files_option)) (item_href li))
        (download_items files_page)
   \<and> (\<exists>ds. fst (scrape_loop (static_env files_site) [files_option] [] []) =
         Inr [\<lparr>qi_quality = q_quality files_option, qi_downloads = ds\<rparr>]
       \<and> map d_filename ds = [''Film 720p.mp4''])"
proof -
  have q1: "q_is_direct_download episode_option" by code_simp
  have f1: "fetch (static_env seven_episodes_site) [] (q_url episode_option) = Some episode_page"
    by code_simp
  have d1: "select_dlink_a episode_page \<noteq> []" by code_simp
  have q2: "q_is_direct_download files_option" by code_simp
  have f2: "fetch (static_env files_site) [] (q_url files_option) = Some files_page"
    by code_simp
  have d2: "select_dlink_a files_page = []" by code_simp
  have r2: "list_all (\<lambda>li. resolvable (static_env files_site)
                       (origin (static_env files_site) (q_url files_option)) (item_href li))
        (download_items files_page)"
    by code_simp
  have t2: "map item_text (download_items files_page) = [''Film 720p.mp4'']" by code_simp
  note a = direct_download_entries [OF q1 f1]
  note b = direct_download_entries [OF q2 f2]
  from a d1 have "\<exists>servers. fst (scrape_loop (static_env seven_episodes_site) [episode_option] [] []) =
         Inr [\<lparr>qi_quality = q_quality episode_option,
               qi_downloads =
                 [\<lparr>d_filename = q_quality episode_option,
                   d_intermediate_url = q_url episode_option,
                   d_direct_links = servers, d_file_size = Some []\<rparr>]\<rparr>]"
    by blast
  moreover from b d2 r2 t2 have "\<exists>ds. fst (scrape_loop (static_env files_site) [files_option] [] []) =
         Inr [\<lparr>qi_quality = q_quality files_option, qi_downloads = ds\<rparr>]
       \<and> map d_filename ds = [''Film 720p.mp4'']"
    by auto
  ultimately show ?thesis using q1 f1 d1 q2 f2 d2 r2 by blast
qed

text \<open>
  A list item whose download link is not its first link gives no entry: both items of the
  page have a download link, and the aggregator produces one entry.
\<close>

theorem direct_download_entries_counterexample:
  "q_is_direct_download files_option
   \<and> fetch (static_env files_site) [] (q_url files_option) = Some files_page
   \<and> select_dlink_a files_page = []
   \<and> map has_download_anchor (find_all ''li'' files_page) = [True, True]
   \<and> fst (scrape_loop (static_env files_site) [files_option] [] []) =
       Inr [\<lparr>qi_quality = ''Film (720x320)'',
             qi_downloads =
               [\<lparr>d_filename = ''Film 720p.mp4'',
                 d_intermediate_url = ''https://isaidub.love/download/page/7/'',
                 d_direct_links = [], d_file_size = Some []\<rparr>]\<rparr>]"
  by code_simp

section \<open>The movie page: links to an Original page\<close>

lemma quality_loop_Cons:
  "quality_loop E base_url (d # ds) qualities lg =
     (case find_a_href d of
        None \<Rightarrow> quality_loop E base_url ds qualities lg
      | Some link \<Rightarrow>
          if is_original_link (get_attr link ''href'') (get_text link) then
            (case follow_original E base_url (get_attr link ''href'') lg of
               (Inl e, lg1) \<Rightarrow> (Raised e, lg1)
             | (Inr r, lg1) \<Rightarrow> (Returned r, lg1))
          else
            (case follow_season E base_url (get_attr link ''href'') lg of
               (Raised e, lg1) \<Rightarrow> (Raised e, lg1)
             | (Returned r, lg1) \<Rightarrow> (Returned r, lg1)
             | (Fell u, lg1) \<Rightarrow>
                 (case direct_quality E base_url (get_attr link ''href'') (get_text link) qualities of
                    Inl e \<Rightarrow> (Raised e, lg1)
                  | Inr qualities1 \<Rightarrow> quality_loop E base_url ds qualities1 lg1)))"
  by (cases "find_a_href d") (auto simp: is_original_link_def Let_def)



text \<open>
  Anchors that are neither "Original" links nor season links, and whose references
  resolve, are passed over without a request: the scan goes on after them.
\<close>

lemma quality_loop_plain:
  "list_all (\<lambda>d. case find_a_href d of
                    None \<Rightarrow> True
                  | Some link \<Rightarrow>
                      \<not> is_original_link (get_attr link ''href'') (get_text link)
                      \<and> \<not> is_season_link (get_attr link ''href'')
                      \<and> resolvable E base_url (get_attr link ''href'')) pre
   \<Longrightarrow> \<exists>qualities1. quality_loop E base_url pre qualities lg = (Fell qualities1, lg)"
proof (induction pre arbitrary: qualities)
  case Nil
  show ?case by simp
next
  case (Cons d pre)
  show ?case
  proof (cases "find_a_href d")
    case None
    with Cons show ?thesis by (simp add: quality_loop_Cons del: quality_loop.simps)
  next
    case (Some link)
    let ?h = "get_attr link ''href''"
    from Cons.prems Some have
      n: "\<not> is_original_link ?h (get_text link)" "\<not> is_season_link ?h" "resolvable E base_url ?h"
      and rest: "list_all (\<lambda>d. case find_a_href d of
                    None \<Rightarrow> True
                  | Some link \<Rightarrow>
                      \<not> is_original_link (get_attr link ''href'') (get_text link)
                      \<and> \<not> is_season_link (get_attr link ''href'')
                      \<and> resolvable E base_url (get_attr link ''href'')) pre"
      by simp_all
    from n(2) have s: "follow_season E base_url ?h lg = (Fell (), lg)"
      by (auto simp: follow_season_def is_season_link_def)
    from resolve_resolvable [OF n(3)] obtain u where "resolve E base_url ?h = Inr u" by blast
    then have "\<exists>q1. direct_quality E base_url ?h (get_text link) qualities = Inr q1"
      by (simp add: direct_quality_def)
    then obtain q1 where q: "direct_quality E base_url ?h (get_text link) qualities = Inr q1"
      by blast
    from Cons.IH [OF rest, of q1] Some n(1) s q show ?thesis
      by (simp add: quality_loop_Cons del: quality_loop.simps)
  qed
qed




section \<open>The aggregator never aborts on a failed request\<close>





























section \<open>The media URL is stored as found\<close>

text \<open>
  Claim C1. Every stage but the walker makes a reference absolute before storing it
  (\<^const>\<open>resolve\<close>), and \<open>_get_server_links\<close> skips the references that do not begin with
  \<open>http\<close>. \<open>_get_final_mp4_url\<close> and \<open>_follow_final_redirect\<close> return the reference of the
  matching anchor as it stands. In the example the quality page, the download page and the
  server are reached by root-relative references and are stored as absolute URLs, while the
  media link of the server page, \<open>/files/film-720p.mp4\<close>, is stored unchanged as the
  media URL: it has neither scheme nor host.
\<close>

theorem relative_media_url_stored:
  "fst (scrape_movie (static_env relative_media_site)
          ''https://moviesda15.com/film-2024-tamil-movie/'' []) = Inr relative_media_result
   \<and> map (\<lambda>qi. map (\<lambda>d. map s_mp4_url (d_direct_links d)) (qi_downloads qi))
         (r_qualities relative_media_result) = [[[Some ''/files/film-720p.mp4'']]]
   \<and> \<not> prefix ''http'' ''/files/film-720p.mp4''
   \<and> \<not> sublist ''://'' ''/files/film-720p.mp4''
   \<and> hostname_of ''/files/film-720p.mp4'' = []
   \<and> get_final_mp4_url (static_env relative_media_site) ''http://srv.example/get/1'' []
       = (Some ''/files/film-720p.mp4'', [''http://srv.example/get/1''])"
  by code_simp

section \<open>The server links of a download page\<close>

lemma dlink_candidates_Cons:
  "filter (\<lambda>c. prefix ''http'' (snd c))
       (map (\<lambda>link. (get_text link, get_attr link ''href'')) (List.map_filter find_a_href (d # ds)))
   = (case find_a_href d of
        None \<Rightarrow> []
      | Some link \<Rightarrow> if prefix ''http'' (get_attr link ''href'')
                     then [(get_text link, get_attr link ''href'')] else [])
     @ filter (\<lambda>c. prefix ''http'' (snd c))
       (map (\<lambda>link. (get_text link, get_attr link ''href'')) (List.map_filter find_a_href ds))"
  by (simp add: List.map_filter_simps split: option.splits)

lemma server_loop_closed:
  "server_loop E ds servers lg =
     (let c = filter (\<lambda>c. prefix ''http'' (snd c))
                (map (\<lambda>link. (get_text link, get_attr link ''href''))
                   (List.map_filter find_a_href ds));
          rs = walk_results E (map snd c) lg;
          k = tried rs
      in (servers @ map link_of (zip (take k c) (take k rs)),
          walk_log E (map snd (take k c)) lg))"
proof (induction ds arbitrary: servers lg)
  case Nil
  show ?case by (simp add: List.map_filter_simps)
next
  case (Cons d ds)
  show ?case
  proof (cases "find_a_href d")
    case None
    then show ?thesis using Cons.IH [of servers lg]
      by (simp add: List.map_filter_simps)
  next
    case (Some link)
    show ?thesis
    proof (cases "prefix ''http'' (get_attr link ''href'')")
      case False
      then show ?thesis using Some Cons.IH [of servers lg]
        by (simp add: List.map_filter_simps)
    next
      case True
      obtain m lg1 where w: "get_final_mp4_url E (get_attr link ''href'') lg = (m, lg1)"
        by (cases "get_final_mp4_url E (get_attr link ''href'') lg")
      have t: "truthy m = (m \<noteq> None)"
        using truthy_final [of E "get_attr link ''href''" lg] w by simp
      show ?thesis
      proof (cases m)
        case None
        then show ?thesis
          using Some True w t
            Cons.IH [of "servers @ [\<lparr>s_server_name = get_text link,
                         s_level1_url = get_attr link ''href'', s_mp4_url = None\<rparr>]" lg1]
          by (simp add: List.map_filter_simps Let_def tried_None link_of_def)
      next
        case (Some u)
        then show ?thesis
          using \<open>find_a_href d = Some link\<close> True w t
          by (simp add: List.map_filter_simps Let_def tried_Some link_of_def)
      qed
    qed
  qed
qed

lemma fallback_loop_Cons:
  "fallback_loop E (link # links) servers lg =
     (if is_fallback_link link then
        (case get_final_mp4_url E (get_attr link ''href'') lg of
           (m, lg1) \<Rightarrow>
             if truthy m
             then (servers @ [link_of ((get_text link, get_attr link ''href''), m)], lg1)
             else fallback_loop E links
                    (servers @ [link_of ((get_text link, get_attr link ''href''), m)]) lg1)
      else fallback_loop E links servers lg)"
  by (auto simp: is_fallback_link_def Let_def link_of_def split: prod.splits)

lemma fallback_loop_closed:
  "fallback_loop E links servers lg =
     (let c = map (\<lambda>link. (get_text link, get_attr link ''href'')) (filter is_fallback_link links);
          rs = walk_results E (map snd c) lg;
          k = tried rs
      in (servers @ map link_of (zip (take k c) (take k rs)),
          walk_log E (map snd (take k c)) lg))"
proof (induction links arbitrary: servers lg)
  case Nil
  show ?case by simp
next
  case (Cons link links)
  show ?case
  proof (cases "is_fallback_link link")
    case False
    then have "fallback_loop E (link # links) servers lg = fallback_loop E links servers lg"
      by (simp add: fallback_loop_Cons del: fallback_loop.simps)
    then show ?thesis using False Cons.IH [of servers lg] by (simp del: fallback_loop.simps)
  next
    case True
    obtain m lg1 where w: "get_final_mp4_url E (get_attr link ''href'') lg = (m, lg1)"
      by (cases "get_final_mp4_url E (get_attr link ''href'') lg")
    have t: "truthy m = (m \<noteq> None)"
      using truthy_final [of E "get_attr link ''href''" lg] w by simp
    have step: "fallback_loop E (link # links) servers lg =
       (if m \<noteq> None then (servers @ [link_of ((get_text link, get_attr link ''href''), m)], lg1)
        else fallback_loop E links (servers @ [link_of ((get_text link, get_attr link ''href''), m)]) lg1)"
      using True w t by (simp add: fallback_loop_Cons del: fallback_loop.simps)
    show ?thesis
    proof (cases m)
      case None
      then show ?thesis
        using True w step
          Cons.IH [of "servers @ [link_of ((get_text link, get_attr link ''href''), None)]" lg1]
        by (simp add: Let_def tried_None del: fallback_loop.simps)
    next
      case (Some u)
      then show ?thesis
        using True w step
        by (simp add: Let_def tried_Some del: fallback_loop.simps)
    qed
  qed
qed

lemma take_tried_butlast:
  "list_all (\<lambda>m. m = None) (butlast (take (tried rs) rs))"
proof (induction rs)
  case Nil show ?case by simp
next
  case (Cons m rs)
  show ?case
  proof (cases m)
    case None
    then show ?thesis using Cons by (simp add: tried_None)
  next
    case (Some u)
    then show ?thesis by (simp add: tried_Some)
  qed
qed

lemma zip_take_butlast:
  "list_all (\<lambda>l. s_mp4_url l = None)
     (butlast (map link_of (zip (take (tried rs) c) (take (tried rs) rs))))"
proof (induction rs arbitrary: c)
  case Nil show ?case by simp
next
  case (Cons r rs)
  show ?case
  proof (cases c)
    case Nil then show ?thesis by simp
  next
    case (Cons x xs)
    show ?thesis
    proof (cases r)
      case None
      then show ?thesis using Cons.IH [of xs] \<open>c = x # xs\<close>
        by (simp add: tried_None link_of_def)
    next
      case (Some u)
      then show ?thesis using \<open>c = x # xs\<close> by (simp add: tried_Some)
    qed
  qed
qed

lemma butlast_none_filter:
  "list_all (\<lambda>l. s_mp4_url l = None) (butlast p) \<Longrightarrow>
   length (filter (\<lambda>l. s_mp4_url l \<noteq> None) p) \<le> 1"
proof (cases p rule: rev_cases)
  case Nil then show ?thesis by simp
next
  case (snoc xs x)
  assume "list_all (\<lambda>l. s_mp4_url l = None) (butlast p)"
  with snoc have "filter (\<lambda>l. s_mp4_url l \<noteq> None) xs = []"
    by (simp add: list_all_iff filter_empty_conv)
  with snoc show ?thesis by simp
qed

text \<open>
  Claim C10. For every call of \<open>_get_server_links\<close>, in every environment and from every
  history: when the download page cannot be fetched the result is empty; otherwise the
  result is made of the first \<open>k\<close> candidates of the page in the order they are tried (the
  \<open>http\<close> anchors of the \<open>div.dlink\<close> elements, or, when there is none, the external
  download and server anchors), each recorded with its text, its reference and exactly what
  the walker \<open>_get_final_mp4_url\<close> returned for that reference at that moment, where \<open>k\<close>
  counts the candidates for which the walker returned nothing before the first for which it
  returned a URL, and that one. So the walker is not run on any later candidate, every link
  but the last has no media URL, and at most one link has one.
\<close>

theorem server_links_single_media:
  "get_server_links E intermediate_url lg =
     (case fetch E lg intermediate_url of
        None \<Rightarrow> ([], lg @ [intermediate_url])
      | Some soup \<Rightarrow>
          (let c = link_candidates soup;
               rs = walk_results E (map snd c) (lg @ [intermediate_url]);
               k = tried rs
           in (map link_of (zip (take k c) (take k rs)),
               walk_log E (map snd (take k c)) (lg @ [intermediate_url]))))
   \<and> list_all (\<lambda>l. s_mp4_url l = None) (butlast (fst (get_server_links E intermediate_url lg)))
   \<and> length (filter (\<lambda>l. s_mp4_url l \<noteq> None) (fst (get_server_links E intermediate_url lg))) \<le> 1"
proof -
  let ?lg1 = "lg @ [intermediate_url]"
  have closed: "get_server_links E intermediate_url lg =
     (case fetch E lg intermediate_url of
        None \<Rightarrow> ([], ?lg1)
      | Some soup \<Rightarrow>
          (let c = link_candidates soup;
               rs = walk_results E (map snd c) ?lg1;
               k = tried rs
           in (map link_of (zip (take k c) (take k rs)),
               walk_log E (map snd (take k c)) ?lg1)))"
  proof (cases "fetch E lg intermediate_url")
    case None
    then show ?thesis by (simp add: get_server_links_def get_soup_def)
  next
    case (Some soup)
    show ?thesis
    proof (cases "dlink_candidates soup = []")
      case True
      then have "server_loop E (select_class ''div'' ''dlink'' soup) [] ?lg1 = ([], ?lg1)"
        by (simp add: server_loop_closed dlink_candidates_def tried_Nil del: server_loop.simps)
      then show ?thesis using Some True
        by (simp add: get_server_links_def get_soup_def link_candidates_def fallback_loop_closed
              fallback_candidates_def del: fallback_loop.simps)
    next
      case False
      obtain x xs where c: "dlink_candidates soup = x # xs"
        using False by (cases "dlink_candidates soup") auto
      have "fst (server_loop E (select_class ''div'' ''dlink'' soup) [] ?lg1) \<noteq> []"
        using c by (simp add: server_loop_closed dlink_candidates_def Let_def tried_def
                      del: server_loop.simps)
      then show ?thesis using Some False
        by (simp add: get_server_links_def get_soup_def link_candidates_def
              server_loop_closed [of E _ "[]"] dlink_candidates_def Let_def
              split: prod.splits del: server_loop.simps)
    qed
  qed
  have b: "list_all (\<lambda>l. s_mp4_url l = None) (butlast (fst (get_server_links E intermediate_url lg)))"
    by (cases "fetch E lg intermediate_url") (simp_all add: closed Let_def zip_take_butlast)
  from closed b butlast_none_filter [OF b] show ?thesis by simp
qed

theorem server_links_single_media_witness:
  "fetch (static_env second_server_site) [] ''https://moviesda15.com/download/film-720p/''
     = Some servers_page
   \<and> link_candidates servers_page
       = [(''Server 1'', ''http://one.example/get/1''), (''Server 2'', ''http://two.example/get/2''),
          (''Server 3'', ''http://three.example/get/3'')]
   \<and> walk_results (static_env second_server_site)
         [''http://one.example/get/1'', ''http://two.example/get/2'', ''http://three.example/get/3'']
         [''https://moviesda15.com/download/film-720p/'']
       = [None, Some ''https://cdn.hotshare.link/film-720p.mp4'',
          Some ''https://cdn.biggshare.xyz/film-720p.mp4'']
   \<and> fst (get_server_links (static_env second_server_site)
            ''https://moviesda15.com/download/film-720p/'' [])
       = [\<lparr>s_server_name = ''Server 1'', s_level1_url = ''http://one.example/get/1'',
           s_mp4_url = None\<rparr>,
          \<lparr>s_server_name = ''Server 2'', s_level1_url = ''http://two.example/get/2'',
           s_mp4_url = Some ''https://cdn.hotshare.link/film-720p.mp4''\<rparr>]
   \<and> snd (get_server_links (static_env second_server_site)
            ''https://moviesda15.com/download/film-720p/'' [])
       = [''https://moviesda15.com/download/film-720p/'', ''http://one.example/get/1'',
          ''http://two.example/get/2'']"
proof -
  let ?E = "static_env second_server_site"
  let ?u = "''https://moviesda15.com/download/film-720p/''"
  have f: "fetch ?E [] ?u = Some servers_page"
    by code_simp
  have c: "link_candidates servers_page
       = [(''Server 1'', ''http://one.example/get/1''), (''Server 2'', ''http://two.example/get/2''),
          (''Server 3'', ''http://three.example/get/3'')]"
    by code_simp
  have r: "walk_results ?E
         [''http://one.example/get/1'', ''http://two.example/get/2'', ''http://three.example/get/3'']
         [?u]
       = [None, Some ''https://cdn.hotshare.link/film-720p.mp4'',
          Some ''https://cdn.biggshare.xyz/film-720p.mp4'']"
    by code_simp
  have l: "walk_log ?E [''http://one.example/get/1'', ''http://two.example/get/2''] [?u]
       = [?u, ''http://one.example/get/1'', ''http://two.example/get/2'']"
    by code_simp
  have "get_server_links ?E ?u [] =
     (case fetch ?E [] ?u of
        None \<Rightarrow> ([], [] @ [?u])
      | Some soup \<Rightarrow>
          (let c = link_candidates soup;
               rs = walk_results ?E (map snd c) ([] @ [?u]);
               k = tried rs
           in (map link_of (zip (take k c) (take k rs)),
               walk_log ?E (map snd (take k c)) ([] @ [?u]))))"
    using server_links_single_media [of ?E ?u "[]"] by (rule conjunct1)
  then have "get_server_links ?E ?u [] =
     ([\<lparr>s_server_name = ''Server 1'', s_level1_url = ''http://one.example/get/1'',
           s_mp4_url = None\<rparr>,
          \<lparr>s_server_name = ''Server 2'', s_level1_url = ''http://two.example/get/2'',
           s_mp4_url = Some ''https://cdn.hotshare.link/film-720p.mp4''\<rparr>],
       [?u, ''http://one.example/get/1'', ''http://two.example/get/2''])"
    using l by (simp add: f c r tried_def link_of_def del: walk_log.simps walk_results.simps)
  with f c r show ?thesis by simp
qed

end
